theory Spec2Isabelle
  imports Main "HOL-Library.Sublist"
begin

section \<open>Strings as the scripts use them\<close>

text \<open>
  The scripts work on Python \<open>str\<close> values through pandas' \<open>Series.str\<close> accessor.
  A string is modelled as a \<open>char list\<close> whose elements are code points below 256.
  \<open>Series.str.replace(pat, repl)\<close> is called without \<open>regex=True\<close>, so it is the
  literal, left-to-right, non-overlapping \<open>str.replace\<close> of Python applied to each
  element; \<open>Series.str.strip()\<close> is \<open>str.strip()\<close> with no argument, which removes the
  characters for which \<open>str.isspace\<close> holds from both ends.
\<close>

definition isspace :: "char \<Rightarrow> bool" where
  "isspace c = (of_char c \<in> set [9, 10, 11, 12, 13, 28, 29, 30, 31, 32, 133, 160 :: nat])"

definition strip :: "string \<Rightarrow> string" where
  "strip s = rev (dropWhile isspace (rev (dropWhile isspace s)))"

function str_replace :: "string \<Rightarrow> string \<Rightarrow> string \<Rightarrow> string" where
  "str_replace old new s =
     (if old = [] then new @ concat (map (\<lambda>c. c # new) s)
      else if s = [] then []
      else if prefix old s then new @ str_replace old new (drop (length old) s)
      else hd s # str_replace old new (tl s))"
  by pat_completeness auto
termination
  by (relation "measure (\<lambda>(old, new, s). length s)") auto

declare str_replace.simps [simp del]

section \<open>reasoning.py: labels and rewrite templates\<close>

datatype FormatType = T1 | T2 | T3 | T4 | T5 | OTHER

definition FormatType_members :: "FormatType list" where
  "FormatType_members = [T1, T2, T3, T4, T5, OTHER]"

fun FormatType_name :: "FormatType \<Rightarrow> string" where
  "FormatType_name T1 = ''T1''"
| "FormatType_name T2 = ''T2''"
| "FormatType_name T3 = ''T3''"
| "FormatType_name T4 = ''T4''"
| "FormatType_name T5 = ''T5''"
| "FormatType_name OTHER = ''OTHER''"

fun FormatType_value :: "FormatType \<Rightarrow> string" where
  "FormatType_value T1 = ''Bold formatting for a single phrase. Example: Think step by step, and then put your answer in **bold** as a single phrase (for example, **sphere**).''"
| "FormatType_value T2 = ''Bold formatting for a list of three words. Example: Think step by step, and then put your answer in **bold** as a list of three words, yes or no (for example, **yes, no, yes**).''"
| "FormatType_value T3 = ''Bold formatting for a single integer. Example: Think step by step, and then put your answer in **bold** as a single integer (for example, **0**).''"
| "FormatType_value T4 = ''Return a single digit number. Example: Return a single digit number, in the following format: **N**, where N is the position.''"
| "FormatType_value T5 = ''Return your answer as a single word. Example: Return your answer as a single word, in the following format: **X**, where X is the answer.''"
| "FormatType_value OTHER = ''Other formatting requirements. Example: Other formatting requirements (if none of the above apply)''"

text \<open>The dictionary literal \<open>format_mapping\<close>, keyed by member names, in source order.\<close>

definition format_mapping_items :: "(string \<times> string) list" where
  "format_mapping_items =
     [(FormatType_name T1, ''Put your answer as a single phrase (for example, sphere).''),
      (FormatType_name T2, ''Put your answer as a list of three words, yes or no (for example, yes, no, yes).''),
      (FormatType_name T3, ''Put your answer as a single integer (for example, 0).''),
      (FormatType_name T4, ''Return a single digit number, in the following format: N, where N is the position.''),
      (FormatType_name T5, ''Return your answer as a single word, in the following format: X, where X is the answer.'')]"

definition format_mapping :: "string \<rightharpoonup> string" where
  "format_mapping = map_of format_mapping_items"

datatype error =
    KeyError string
  | AssertionError
  | AttributeError
  | ValueError
  | UndefinedVariableError
  | ValidationError
  | TransportError string

text \<open>Subscripting the dictionary, \<open>format_mapping[k]\<close>, raises \<open>KeyError\<close> on a missing key.\<close>

definition format_mapping_getitem :: "string \<Rightarrow> error + string" where
  "format_mapping_getitem k =
     (case format_mapping k of None \<Rightarrow> Inl (KeyError k) | Some v \<Rightarrow> Inr v)"

section \<open>update_livebench_questions.py: the two versions\<close>

text \<open>
  A line of \<open>question.jsonl\<close> carries a \<open>turns\<close> array of strings, a \<open>ground_truth\<close>
  string and a \<open>task\<close> string. A row of the data frame adds the derived columns;
  \<open>None\<close> in \<open>turns_str\<close> or \<open>updated_question\<close> is pandas' missing value, and
  \<open>None\<close> in \<open>data_point_id\<close> is a frame without that column.
\<close>

record question =
  turns :: "string list"
  ground_truth :: string
  task :: string

record row = question +
  turns_str :: "string option"
  data_point_id :: "nat option"
  updated_question :: "string option"

text \<open>\<open>x.turns.str[0]\<close>: the first element, or the missing value for an empty array.\<close>

definition str_getitem0 :: "string list \<Rightarrow> string option" where
  "str_getitem0 ts = (case ts of [] \<Rightarrow> None | t # _ \<Rightarrow> Some t)"

definition assign :: "question \<Rightarrow> row" where
  "assign q =
     \<lparr>turns = turns q, ground_truth = strip (ground_truth q), task = task q,
      turns_str = str_getitem0 (turns q), data_point_id = None, updated_question = None\<rparr>"

text \<open>\<open>.reset_index().rename(columns={"index": "data_point_id"})\<close> on a freshly read frame.\<close>

definition reset_index :: "row list \<Rightarrow> row list" where
  "reset_index df = map (\<lambda>(i, r). r\<lparr>data_point_id := Some i\<rparr>) (enumerate 0 df)"

text \<open>\<open>df.turns.str.len().eq(1).all()\<close>\<close>

definition turns_len_eq_1_all :: "row list \<Rightarrow> bool" where
  "turns_len_eq_1_all df = list_all (\<lambda>r. length (turns r) = 1) df"

text \<open>The replacement chains of \<open>process_reasoning_questions\<close>, in scripts/ and in extras/.\<close>

definition reasoning_update :: "string \<Rightarrow> string" where
  "reasoning_update s = strip (str_replace ''**'' [] (str_replace ''in **bold**'' [] s))"

definition extras_reasoning_update :: "string \<Rightarrow> string" where
  "extras_reasoning_update s =
     strip (str_replace ''**'' [] (str_replace ''***'' [] (str_replace ''in **bold** '' [] s)))"

text \<open>The replacement chain of \<open>process_math_questions\<close> (extras/ only).\<close>

definition math_update :: "string \<Rightarrow> string" where
  "math_update s =
     strip
      (str_replace
         ''Remember to have the three digits as the last part of the response.''
         ''Your answer should not include any other text except the three digits.''
      (str_replace
         ''Your final answer should be STRICTLY in the format:\<newline>\<newline><Detailed reasoning>\<newline>\<newline>Answer: <comma separated list of numbers representing expression identifiers>''
         ''Please think step by step out loud and provide your answer as a comma separated list of numbers representing expression identifiers (e.g., 1,2,3). Don't include any other text except a comma separated list of numbers in your answer.''
      (str_replace
         ''Once you have your answer, please duplicate that letter five times in a single string. For example, if the answer is F, then write FFFFF.''
         ''Please think step by step out loud and provide your answer as a single letter (e.g., F or A). Don't include any other text except a single letter in your answer.''
      (str_replace
         ''Please think step by step, and then display the answer at the very end of your response.''
         ''Please think step by step out loud and provide your answer at the end.''
      (str_replace
         ''If you cannot determine the correct multiple-choice answer, take your best guess.''
         ''If you cannot determine the correct answer, take your best guess.''
      (str_replace
         ('' Please put your final answer in a $'' @ [CHR 0x5C, CHR 0x5C] @ ''boxed{}$.'')
         ''Please think step by step out loud and provide your answer at the end.''
      (strip s)))))))"

text \<open>
  The output files. A stage function reads the records of its \<open>question.jsonl\<close> (the
  argument \<open>questions\<close>) and writes \<open>updated_questions.jsonl\<close> and
  \<open>updated_questions.csv\<close>; the file system maps a path to the rows written there.
  An empty frame has no columns, so the first column access raises.
\<close>

type_synonym fs = "string \<rightharpoonup> row list"

definition reasoning_jsonl :: string where
  "reasoning_jsonl = ''data/live_bench/reasoning/updated_questions.jsonl''"

definition reasoning_csv :: string where
  "reasoning_csv = ''data/live_bench/reasoning/updated_questions.csv''"

definition math_jsonl :: string where
  "math_jsonl = ''data/live_bench/math/updated_questions.jsonl''"

definition math_csv :: string where
  "math_csv = ''data/live_bench/math/updated_questions.csv''"

text \<open>scripts/is-pydantic-making-your-model-dumber/update_livebench_questions.py\<close>

definition process_reasoning_questions :: "question list \<Rightarrow> fs \<Rightarrow> (error + unit) \<times> fs" where
  "process_reasoning_questions questions fs =
     (if questions = [] then (Inl AttributeError, fs)
      else
        let df_reasoning = reset_index (map assign questions) in
        if \<not> turns_len_eq_1_all df_reasoning then (Inl AssertionError, fs)
        else
          let df = map (\<lambda>r. r\<lparr>updated_question := map_option reasoning_update (turns_str r)\<rparr>)
                     df_reasoning
          in (Inr (), fs(reasoning_jsonl \<mapsto> df, reasoning_csv \<mapsto> df)))"

text \<open>extras/update_livebench_questions.py\<close>

definition extras_process_reasoning_questions ::
  "question list \<Rightarrow> fs \<Rightarrow> (error + unit) \<times> fs" where
  "extras_process_reasoning_questions questions fs =
     (if questions = [] then (Inl AttributeError, fs)
      else
        let df_reasoning = map assign questions in
        if \<not> turns_len_eq_1_all df_reasoning then (Inl AssertionError, fs)
        else
          let df = map (\<lambda>r. r\<lparr>updated_question :=
                                  map_option extras_reasoning_update (turns_str r)\<rparr>)
                     df_reasoning
          in (Inr (), fs(reasoning_jsonl \<mapsto> df, reasoning_csv \<mapsto> df)))"

text \<open>
  \<open>process_math_questions\<close> filters with \<open>.query("task != 'AMPS_Hard'")\<close> first, runs
  its replacement chain next, and asserts last. The \<open>.str\<close> accessor of the chain
  raises \<open>AttributeError\<close> on a non-empty column that holds missing values only
  (pandas infers a float column there).
\<close>

definition process_math_questions :: "question list \<Rightarrow> fs \<Rightarrow> (error + unit) \<times> fs" where
  "process_math_questions questions fs =
     (if questions = [] then (Inl UndefinedVariableError, fs)
      else
        let df_math = map assign (filter (\<lambda>q. task q \<noteq> ''AMPS_Hard'') questions) in
        if df_math \<noteq> [] \<and> list_all (\<lambda>r. turns_str r = None) df_math
        then (Inl AttributeError, fs)
        else
          let df = map (\<lambda>r. r\<lparr>updated_question := map_option math_update (turns_str r)\<rparr>)
                     df_math
          in if \<not> turns_len_eq_1_all df then (Inl AssertionError, fs)
             else (Inr (), fs(math_jsonl \<mapsto> df, math_csv \<mapsto> df)))"

section \<open>reasoning.py: the two stages\<close>

text \<open>
  The structured-output client is external. It is a parameter: a deterministic function
  from the system and the user message to the raw text of the single field of the
  response, or to the error the call raises. The response model then validates the raw
  text: \<open>FormatClassification\<close> accepts exactly the values of the \<open>FormatType\<close> members,
  \<open>UpdatedQuestion\<close> accepts any string.
\<close>

type_synonym client = "string \<Rightarrow> string \<Rightarrow> error + string"

definition FormatClassification :: "string \<Rightarrow> error + FormatType" where
  "FormatClassification raw =
     (case find (\<lambda>t. FormatType_value t = raw) FormatType_members of
        None \<Rightarrow> Inl ValidationError
      | Some t \<Rightarrow> Inr t)"

definition UpdatedQuestion :: "string \<Rightarrow> error + string" where
  "UpdatedQuestion raw = Inr raw"

definition system_prompt_classification_reasoning :: string where
  "system_prompt_classification_reasoning =
     ''You're a helpful assistant. I will provide you with a question and you will classify the formatting requirements of the output of the provided question into the most appropriate category.''"

definition system_prompt_replace_reasoning_format :: string where
  "system_prompt_replace_reasoning_format =
     ''You're a helpful assistant. I will provide you with a question and the old formatting requirements. Your task is to replace the old formatting requirements with the new ones.'' @
     ''Please return the full text of the question with the new formatting requirements. Don't include any other text. Don't include 'Question:' or 'Old formatting:' or 'New formatting:'' @
     [CHR 0x27]"

text \<open>
  What \<open>run_model_with_instructor\<close> returns or raises once its call has completed. The
  semaphore it holds meanwhile is part of the event loop below.
\<close>

definition run_model_with_instructor ::
  "client \<Rightarrow> string \<Rightarrow> string \<Rightarrow> (string \<Rightarrow> error + 'a) \<Rightarrow> error + 'a" where
  "run_model_with_instructor create system_message user_message response_model =
     (case create system_message user_message of
        Inl e \<Rightarrow> Inl e
      | Inr raw \<Rightarrow> response_model raw)"

subsection \<open>The event loop: \<open>asyncio.Semaphore\<close> and \<open>asyncio.gather\<close>\<close>

text \<open>
  \<open>asyncio.gather(*tasks)\<close> starts the coroutines in the order of its arguments. Each
  runs \<open>async with semaphore\<close>: \<open>acquire\<close> takes a slot when the value is positive and
  nobody waits, and queues the task otherwise; the task that holds a slot is awaiting
  its model call. When a call completes, \<open>release\<close> adds one to the value and wakes the
  first waiter, which takes the slot. The first exception of a task is propagated to
  the caller of \<open>gather\<close> at once; the other tasks are not cancelled.
\<close>

datatype 'a task = Waiting | InFlight | Done "error + 'a"

record 'a loop =
  sem_value :: nat
  sem_waiters :: "nat list"
  tasks :: "'a task list"
  raised :: "error option"

definition Semaphore :: "int \<Rightarrow> error + nat" where
  "Semaphore v = (if v < 0 then Inl ValueError else Inr (nat v))"

definition acquire :: "nat \<Rightarrow> 'a loop \<Rightarrow> 'a loop" where
  "acquire i s =
     (if 0 < sem_value s \<and> sem_waiters s = []
      then s\<lparr>sem_value := sem_value s - 1, tasks := (tasks s)[i := InFlight]\<rparr>
      else s\<lparr>sem_waiters := sem_waiters s @ [i]\<rparr>)"

definition wake_up_next :: "'a loop \<Rightarrow> 'a loop" where
  "wake_up_next s =
     (case sem_waiters s of
        [] \<Rightarrow> s
      | j # ws \<Rightarrow> s\<lparr>sem_value := sem_value s - 1, sem_waiters := ws,
                      tasks := (tasks s)[j := InFlight]\<rparr>)"

definition release :: "'a loop \<Rightarrow> 'a loop" where
  "release s = wake_up_next (s\<lparr>sem_value := sem_value s + 1\<rparr>)"

text \<open>
  The call of task \<open>i\<close> completes with the outcome \<open>calls ! i\<close>. An event for a task that
  is not awaiting its call changes nothing.
\<close>

definition complete :: "(error + 'a) list \<Rightarrow> nat \<Rightarrow> 'a loop \<Rightarrow> 'a loop" where
  "complete calls i s =
     (if i < length (tasks s) \<and> i < length calls \<and> tasks s ! i = InFlight
      then
        release
          (s\<lparr>tasks := (tasks s)[i := Done (calls ! i)],
             raised := (case raised s of
                          Some e \<Rightarrow> Some e
                        | None \<Rightarrow> (case calls ! i of Inl e \<Rightarrow> Some e | Inr _ \<Rightarrow> None))\<rparr>)
      else s)"

text \<open>The loop once \<open>gather\<close> has started the first \<open>m\<close> of its \<open>n\<close> tasks.\<close>

definition start :: "nat \<Rightarrow> nat \<Rightarrow> nat \<Rightarrow> 'a loop" where
  "start K n m =
     fold acquire [0..<m]
       \<lparr>sem_value = K, sem_waiters = [], tasks = replicate n Waiting, raised = None\<rparr>"

text \<open>
  The loop after \<open>gather\<close> has started every task and the calls listed in \<open>schedule\<close>
  have completed, in that order.
\<close>

definition gather :: "(error + 'a) list \<Rightarrow> nat \<Rightarrow> nat list \<Rightarrow> 'a loop" where
  "gather calls K schedule =
     fold (complete calls) schedule (start K (length calls) (length calls))"

fun is_in_flight :: "'a task \<Rightarrow> bool" where
  "is_in_flight InFlight = True"
| "is_in_flight _ = False"

fun is_done :: "'a task \<Rightarrow> bool" where
  "is_done (Done _) = True"
| "is_done _ = False"

fun task_result :: "'a task \<Rightarrow> 'a option" where
  "task_result (Done (Inr a)) = Some a"
| "task_result _ = None"

definition in_flight :: "'a loop \<Rightarrow> nat" where
  "in_flight s = length (filter is_in_flight (tasks s))"

text \<open>
  What \<open>await asyncio.gather(*tasks)\<close> has given its caller: the exception raised, the
  list of results in argument order once every task is done, or nothing yet.
\<close>

definition gather_result :: "'a loop \<Rightarrow> (error + 'a list) option" where
  "gather_result s =
     (case raised s of
        Some e \<Rightarrow> Some (Inl e)
      | None \<Rightarrow> map_option Inr (those (map task_result (tasks s))))"

subsection \<open>The stage functions\<close>

text \<open>
  A run of a stage either raised before it reached \<open>gather\<close>, or is the event loop of
  its tasks together with the messages of each task.
\<close>

datatype 'a run = Raised error | Gathering "(string \<times> string) list" "'a loop"

fun run_result :: "'a run \<Rightarrow> (error + 'a list) option" where
  "run_result (Raised e) = Some (Inl e)"
| "run_result (Gathering msgs s) = gather_result s"

fun run_in_flight :: "'a run \<Rightarrow> nat" where
  "run_in_flight (Raised e) = 0"
| "run_in_flight (Gathering msgs s) = in_flight s"

text \<open>The messages of the model calls issued so far, in task order.\<close>

fun run_submitted :: "'a run \<Rightarrow> (string \<times> string) list" where
  "run_submitted (Raised e) = []"
| "run_submitted (Gathering msgs s) =
     map fst (filter (\<lambda>(m, t). t \<noteq> Waiting) (zip msgs (tasks s)))"

text \<open>The tasks whose call has returned or raised.\<close>

fun run_done :: "'a run \<Rightarrow> nat set" where
  "run_done (Raised e) = {}"
| "run_done (Gathering msgs s) = {i. i < length (tasks s) \<and> is_done (tasks s ! i)}"

text \<open>The number of tasks suspended in \<open>acquire\<close>.\<close>

fun run_waiting :: "'a run \<Rightarrow> nat" where
  "run_waiting (Raised e) = 0"
| "run_waiting (Gathering msgs s) = length (filter (\<lambda>t. t = Waiting) (tasks s))"

text \<open>
  Both stage functions declare \<open>concurrency: int = 30\<close>; \<open>None\<close> is a call that leaves
  the argument out.
\<close>

definition concurrency_of :: "int option \<Rightarrow> int" where
  "concurrency_of concurrency = (case concurrency of None \<Rightarrow> 30 | Some k \<Rightarrow> k)"

text \<open>An f-string prints the missing value as \<open>nan\<close>.\<close>

definition format_str :: "string option \<Rightarrow> string" where
  "format_str v = (case v of None \<Rightarrow> ''nan'' | Some s \<Rightarrow> s)"

record classified_row = row +
  classification :: FormatType

definition classify_message :: "'a row_scheme \<Rightarrow> string \<times> string" where
  "classify_message r =
     (system_prompt_classification_reasoning, ''Question:\<newline>'' @ format_str (turns_str r))"

definition classify_reasoning_questions ::
  "client \<Rightarrow> 'a row_scheme list \<Rightarrow> int option \<Rightarrow> nat list \<Rightarrow> FormatType run" where
  "classify_reasoning_questions create df concurrency schedule =
     (case Semaphore (concurrency_of concurrency) of
        Inl e \<Rightarrow> Raised e
      | Inr K \<Rightarrow>
          let msgs = map classify_message df;
              calls = map (\<lambda>(sm, um). run_model_with_instructor create sm um FormatClassification)
                        msgs
          in Gathering msgs (gather calls K schedule))"

text \<open>
  The list comprehension of the rewriter evaluates the f-string of each row in turn,
  before \<open>gather\<close> is reached; the subscript into \<open>format_mapping\<close> may raise there.
\<close>

definition replace_message :: "'a classified_row_scheme \<Rightarrow> error + string \<times> string" where
  "replace_message r =
     (case format_mapping_getitem (FormatType_name (classification r)) of
        Inl e \<Rightarrow> Inl e
      | Inr new \<Rightarrow>
          Inr (system_prompt_replace_reasoning_format,
               ''Question:\<newline>'' @ format_str (turns_str r) @
               ''\<newline>Old formatting:\<newline>'' @ FormatType_value (classification r) @
               ''\<newline>New formatting:'' @ new @ ''\<newline>''))"

fun replace_messages :: "'a classified_row_scheme list \<Rightarrow> error + (string \<times> string) list" where
  "replace_messages [] = Inr []"
| "replace_messages (r # rs) =
     (case replace_message r of
        Inl e \<Rightarrow> Inl e
      | Inr m \<Rightarrow> (case replace_messages rs of Inl e \<Rightarrow> Inl e | Inr ms \<Rightarrow> Inr (m # ms)))"

definition replace_reasoning_questions_format ::
  "client \<Rightarrow> 'a classified_row_scheme list \<Rightarrow> int option \<Rightarrow> nat list \<Rightarrow> string run" where
  "replace_reasoning_questions_format create df concurrency schedule =
     (case Semaphore (concurrency_of concurrency) of
        Inl e \<Rightarrow> Raised e
      | Inr K \<Rightarrow>
          (case replace_messages df of
             Inl e \<Rightarrow> Raised e
           | Inr msgs \<Rightarrow>
               let calls = map (\<lambda>(sm, um). run_model_with_instructor create sm um UpdatedQuestion)
                             msgs
               in Gathering msgs (gather calls K schedule)))"

text \<open>The structured-output call of one record, as each stage issues it.\<close>

definition classify_call :: "client \<Rightarrow> 'a row_scheme \<Rightarrow> error + FormatType" where
  "classify_call create r =
     (case classify_message r of
        (sm, um) \<Rightarrow> run_model_with_instructor create sm um FormatClassification)"

definition replace_call :: "client \<Rightarrow> 'a classified_row_scheme \<Rightarrow> error + string" where
  "replace_call create r =
     (case replace_message r of
        Inl e \<Rightarrow> Inl e
      | Inr (sm, um) \<Rightarrow> run_model_with_instructor create sm um UpdatedQuestion)"

subsection \<open>Invariants of the event loop\<close>

text \<open>
  Once the first \<open>m\<close> tasks have started: the slots left and the calls in flight add up
  to the bound; somebody waits only when no slot is left; the queue holds exactly the
  started tasks that are suspended, each once; the other tasks have not started.
\<close>

definition sem_inv :: "nat \<Rightarrow> nat \<Rightarrow> 'a loop \<Rightarrow> bool" where
  "sem_inv K m s \<longleftrightarrow>
     sem_value s + in_flight s = K \<and>
     (sem_waiters s \<noteq> [] \<longrightarrow> sem_value s = 0) \<and>
     distinct (sem_waiters s) \<and>
     set (sem_waiters s) = {i. i < m \<and> i < length (tasks s) \<and> tasks s ! i = Waiting} \<and>
     (\<forall>i < length (tasks s). m \<le> i \<longrightarrow> tasks s ! i = Waiting)"

text \<open>
  A finished task holds the outcome of its own call, and an exception has been
  propagated exactly when some finished task raised it.
\<close>

definition res_inv :: "(error + 'a) list \<Rightarrow> 'a loop \<Rightarrow> bool" where
  "res_inv calls s \<longleftrightarrow>
     length (tasks s) = length calls \<and>
     (\<forall>i < length calls. \<forall>r. tasks s ! i = Done r \<longrightarrow> r = calls ! i) \<and>
     (case raised s of
        None \<Rightarrow> \<forall>i < length calls. \<forall>e. tasks s ! i \<noteq> Done (Inl e)
      | Some e \<Rightarrow> \<exists>i < length calls. tasks s ! i = Done (Inl e))"

section \<open>The label-to-template lookup\<close>

text \<open>
  Claim C1. The claim reads: for every member of \<open>FormatType\<close>, \<open>OTHER\<close> included,
  looking the label up in the mapping used by the rewriter succeeds. The dictionary
  literal has entries for the five members \<open>T1\<close> to \<open>T5\<close> only: at the member
  \<open>OTHER\<close>, which the classifier's response schema admits, the subscript
  \<open>format_mapping[row.classification.name]\<close> raises \<open>KeyError\<close>.
\<close>

theorem format_mapping_getitem_OTHER:
  "OTHER \<in> set FormatType_members \<and>
   format_mapping_getitem (FormatType_name OTHER) = Inl (KeyError ''OTHER'')"
  by (simp add: FormatType_members_def format_mapping_getitem_def format_mapping_def
      format_mapping_items_def)

section \<open>The replacement chain of the reasoning questions\<close>

text \<open>
  A literal replacement leaves a string without the pattern unchanged; removing every
  \<open>**\<close> from left to right leaves runs of at most one asterisk; stripping yields a
  contiguous part of its argument with no whitespace at either end.
\<close>

lemma str_replace_absent:
  "old \<noteq> [] \<Longrightarrow> \<not> sublist old s \<Longrightarrow> str_replace old new s = s"
proof (induction s)
  case Nil
  then show ?case by (simp add: str_replace.simps)
next
  case (Cons c cs)
  have np: "\<not> prefix old (c # cs)"
    using Cons.prems(2) by (auto simp: sublist_Cons_right)
  have ns: "\<not> sublist old cs"
    using Cons.prems(2) by (auto simp: sublist_Cons_right)
  show ?case
    using Cons.IH [OF Cons.prems(1) ns] np Cons.prems(1)
    by (subst str_replace.simps) simp
qed

lemma str_replace_stars_Nil: "str_replace ''**'' [] [] = []"
  by (simp add: str_replace.simps)

lemma str_replace_stars_match:
  "str_replace ''**'' [] (CHR ''*'' # CHR ''*'' # s) = str_replace ''**'' [] s"
  by (subst str_replace.simps) simp

lemma str_replace_stars_single: "str_replace ''**'' [] [c] = [c]"
  by (subst str_replace.simps) (simp add: str_replace_stars_Nil)

lemma str_replace_stars_skip:
  "\<not> (c = CHR ''*'' \<and> d = CHR ''*'') \<Longrightarrow>
   str_replace ''**'' [] (c # d # s) = c # str_replace ''**'' [] (d # s)"
  by (subst str_replace.simps) auto

lemma str_replace_stars_head:
  "d \<noteq> CHR ''*'' \<Longrightarrow> \<exists>r. str_replace ''**'' [] (d # s) = d # r"
  by (cases s) (auto simp: str_replace_stars_single str_replace_stars_skip)

lemma sublist_stars_Cons:
  "sublist ''**'' (c # r) \<longleftrightarrow> (c = CHR ''*'' \<and> (\<exists>t. r = CHR ''*'' # t)) \<or> sublist ''**'' r"
  by (cases r) (auto simp: sublist_Cons_right)

lemma str_replace_stars_free: "\<not> sublist ''**'' (str_replace ''**'' [] s)"
proof (induction s rule: length_induct)
  case (1 s)
  show ?case
  proof (cases s)
    case Nil
    then show ?thesis by (simp add: str_replace_stars_Nil)
  next
    case (Cons c t)
    note s = Cons
    show ?thesis
    proof (cases t)
      case Nil
      then show ?thesis using s by (simp add: str_replace_stars_single sublist_stars_Cons)
    next
      case (Cons d u)
      have ih: "\<not> sublist ''**'' (str_replace ''**'' [] (d # u))"
        using 1 s Cons by simp
      show ?thesis
      proof (cases "c = CHR ''*'' \<and> d = CHR ''*''")
        case True
        then show ?thesis using s Cons 1 by (simp add: str_replace_stars_match)
      next
        case False
        note cd = False
        show ?thesis
        proof (cases "d = CHR ''*''")
          case True
          then have "c \<noteq> CHR ''*''" using cd by simp
          then show ?thesis using s Cons cd ih
            by (simp add: str_replace_stars_skip sublist_stars_Cons)
        next
          case False
          then obtain r where "str_replace ''**'' [] (d # u) = d # r"
            using str_replace_stars_head by blast
          then show ?thesis using s Cons cd ih False
            by (simp add: str_replace_stars_skip sublist_stars_Cons)
        qed
      qed
    qed
  qed
qed

lemma sublist_strip: "sublist (strip s) s"
proof -
  have "sublist (rev (dropWhile isspace (rev (dropWhile isspace s)))) (dropWhile isspace s)"
    by (metis sublist_dropWhile sublist_rev_left)
  then show ?thesis
    unfolding strip_def by (meson sublist_dropWhile sublist_order.order_trans)
qed

lemma takeWhile_dropWhile_Nil: "takeWhile P (dropWhile P xs) = []"
  by (induction xs) auto

lemma rev_dropWhile_rev_Cons:
  "\<not> P c \<Longrightarrow> rev (dropWhile P (rev t @ [c])) = c # rev (dropWhile P (rev t))"
  by (auto simp: dropWhile_append)

lemma takeWhile_strip: "takeWhile isspace (strip s) = []"
proof (cases "dropWhile isspace s")
  case Nil
  show ?thesis unfolding strip_def Nil by simp
next
  case (Cons c t)
  then have c: "\<not> isspace c"
    by (metis hd_dropWhile list.distinct(1) list.sel(1))
  show ?thesis
    unfolding strip_def Cons using c
    by (simp add: rev_dropWhile_rev_Cons [where P = isspace and c = c])
qed

lemma takeWhile_rev_strip: "takeWhile isspace (rev (strip s)) = []"
  unfolding strip_def rev_rev_ident by (rule takeWhile_dropWhile_Nil)

lemma strip_fixed:
  "takeWhile isspace y = [] \<Longrightarrow> takeWhile isspace (rev y) = [] \<Longrightarrow> strip y = y"
  by (metis append_Nil dropWhile_eq_self_iff rev_rev_ident strip_def takeWhile_dropWhile_id takeWhile_eq_Nil_iff)


lemma sublist_stars_bold: "sublist ''**'' ''in **bold**''"
  by (simp add: sublist_stars_Cons)

text \<open>
  Claim C10. The chain of the scripts/ version (remove every \<open>in **bold**\<close>, then every
  \<open>**\<close>, then strip) is idempotent on every string, and its output contains no
  \<open>**\<close> and neither starts nor ends with a whitespace character.
\<close>

theorem reasoning_update_idempotent:
  "reasoning_update (reasoning_update s) = reasoning_update s \<and>
   \<not> sublist ''**'' (reasoning_update s) \<and>
   takeWhile isspace (reasoning_update s) = [] \<and>
   takeWhile isspace (rev (reasoning_update s)) = []"
proof -
  let ?y = "reasoning_update s"
  have free: "\<not> sublist ''**'' ?y"
    unfolding reasoning_update_def
    using str_replace_stars_free sublist_strip sublist_order.order_trans by blast
  have bold: "\<not> sublist ''in **bold**'' ?y"
    using free sublist_stars_bold sublist_order.order_trans by blast
  have lead: "takeWhile isspace ?y = []"
    unfolding reasoning_update_def by (rule takeWhile_strip)
  have trail: "takeWhile isspace (rev ?y) = []"
    unfolding reasoning_update_def by (rule takeWhile_rev_strip)
  have "str_replace ''in **bold**'' [] ?y = ?y"
    using bold by (intro str_replace_absent) simp_all
  moreover have "str_replace ''**'' [] ?y = ?y"
    using free by (intro str_replace_absent) simp_all
  moreover have "strip ?y = ?y"
    using lead trail by (rule strip_fixed)
  ultimately have "reasoning_update ?y = ?y"
    by (simp add: reasoning_update_def [of ?y])
  then show ?thesis using free lead trail by simp
qed

theorem reasoning_update_idempotent_witness:
  "reasoning_update '' put your answer in **bold** as ***x*** '' = ''put your answer  as *x*'' \<and>
   reasoning_update ''put your answer  as *x*'' = ''put your answer  as *x*'' \<and>
   \<not> sublist ''**'' ''put your answer  as *x*''"
proof -
  have e: "reasoning_update '' put your answer in **bold** as ***x*** '' = ''put your answer  as *x*''"
    by code_simp
  show ?thesis
    using reasoning_update_idempotent [of "'' put your answer in **bold** as ***x*** ''"]
    unfolding e by simp
qed

section \<open>The stage functions of the update scripts\<close>

lemma length_reset_index: "length (reset_index df) = length df"
  by (simp add: reset_index_def)

lemma nth_reset_index:
  "i < length df \<Longrightarrow> reset_index df ! i = (df ! i)\<lparr>data_point_id := Some i\<rparr>"
  by (simp add: reset_index_def nth_enumerate_eq)

lemma turns_reset_index: "map turns (reset_index df) = map turns df"
  by (rule nth_equalityI) (simp_all add: length_reset_index nth_reset_index)

lemma turns_len_eq_1_all_iff:
  "turns_len_eq_1_all df \<longleftrightarrow> (\<forall>r \<in> set df. length (turns r) = 1)"
  by (simp add: turns_len_eq_1_all_def list_all_iff)

lemma turns_len_reset_index:
  "turns_len_eq_1_all (reset_index (map assign qs)) \<longleftrightarrow> (\<forall>q \<in> set qs. length (turns q) = 1)"
proof -
  have "turns_len_eq_1_all (reset_index (map assign qs)) \<longleftrightarrow>
        (\<forall>t \<in> set (map turns (reset_index (map assign qs))). length t = 1)"
    by (simp add: turns_len_eq_1_all_iff)
  also have "\<dots> \<longleftrightarrow> (\<forall>q \<in> set qs. length (turns q) = 1)"
    unfolding turns_reset_index by (simp add: assign_def)
  finally show ?thesis .
qed

lemma turns_len_assign:
  "turns_len_eq_1_all (map assign qs) \<longleftrightarrow> (\<forall>q \<in> set qs. length (turns q) = 1)"
  by (simp add: turns_len_eq_1_all_iff assign_def)

lemma turns_str_assign_single:
  "length (turns q) = 1 \<Longrightarrow> turns_str (assign q) = Some (hd (turns q))"
  by (cases "turns q") (simp_all add: assign_def str_getitem0_def)


lemma paths_distinct: "reasoning_jsonl \<noteq> reasoning_csv" "math_jsonl \<noteq> math_csv"
  by (simp_all add: reasoning_jsonl_def reasoning_csv_def math_jsonl_def math_csv_def)

lemma process_reasoning_questions_ok:
  assumes "qs \<noteq> []" "\<forall>q \<in> set qs. length (turns q) = 1"
  shows "process_reasoning_questions qs fs =
     (Inr (),
      fs(reasoning_jsonl \<mapsto> map (\<lambda>r. r\<lparr>updated_question := map_option reasoning_update (turns_str r)\<rparr>)
                                  (reset_index (map assign qs)),
         reasoning_csv \<mapsto> map (\<lambda>r. r\<lparr>updated_question := map_option reasoning_update (turns_str r)\<rparr>)
                                  (reset_index (map assign qs))))"
  using assms by (simp add: process_reasoning_questions_def turns_len_reset_index Let_def)


lemma process_reasoning_questions_Inr:
  assumes "process_reasoning_questions qs fs = (Inr (), fs')"
  shows "qs \<noteq> [] \<and> (\<forall>q \<in> set qs. length (turns q) = 1)"
  using assms
  by (auto simp: process_reasoning_questions_def turns_len_reset_index Let_def split: if_splits)

lemma extras_process_reasoning_questions_ok:
  assumes "qs \<noteq> []" "\<forall>q \<in> set qs. length (turns q) = 1"
  shows "extras_process_reasoning_questions qs fs =
     (Inr (),
      fs(reasoning_jsonl \<mapsto> map (\<lambda>r. r\<lparr>updated_question := map_option extras_reasoning_update (turns_str r)\<rparr>)
                                  (map assign qs),
         reasoning_csv \<mapsto> map (\<lambda>r. r\<lparr>updated_question := map_option extras_reasoning_update (turns_str r)\<rparr>)
                                  (map assign qs)))"
  using assms by (simp add: extras_process_reasoning_questions_def turns_len_assign Let_def)

lemma extras_process_reasoning_questions_fail:
  assumes "\<exists>q \<in> set qs. length (turns q) \<noteq> 1"
  shows "extras_process_reasoning_questions qs fs = (Inl AssertionError, fs)"
proof -
  have "qs \<noteq> []" using assms by auto
  then show ?thesis
    using assms by (simp add: extras_process_reasoning_questions_def turns_len_assign Let_def)
qed

lemma turns_str_assign_None: "turns_str (assign q) = None \<longleftrightarrow> turns q = []"
  by (cases "turns q") (simp_all add: assign_def str_getitem0_def)

lemma math_all_missing:
  "list_all (\<lambda>r. turns_str r = None) (map assign ks) \<longleftrightarrow> (\<forall>q \<in> set ks. turns q = [])"
  by (simp add: list_all_iff turns_str_assign_None)

lemma math_turns_len:
  "turns_len_eq_1_all (map (\<lambda>r. r\<lparr>updated_question := map_option f (turns_str r)\<rparr>) (map assign ks))
     \<longleftrightarrow> (\<forall>q \<in> set ks. length (turns q) = 1)"
  by (simp add: turns_len_eq_1_all_iff assign_def)

lemma process_math_questions_unfold:
  "process_math_questions qs fs =
     (let ks = filter (\<lambda>q. task q \<noteq> ''AMPS_Hard'') qs;
          df = map (\<lambda>r. r\<lparr>updated_question := map_option math_update (turns_str r)\<rparr>) (map assign ks)
      in if qs = [] then (Inl UndefinedVariableError, fs)
         else if ks \<noteq> [] \<and> (\<forall>q \<in> set ks. turns q = []) then (Inl AttributeError, fs)
         else if \<not> (\<forall>q \<in> set ks. length (turns q) = 1) then (Inl AssertionError, fs)
         else (Inr (), fs(math_jsonl \<mapsto> df, math_csv \<mapsto> df)))"
  unfolding process_math_questions_def Let_def math_all_missing math_turns_len
  by simp








lemma process_math_questions_Inr:
  assumes "process_math_questions qs fs = (Inr (), fs')"
  shows "(\<forall>q \<in> set (filter (\<lambda>q. task q \<noteq> ''AMPS_Hard'') qs). length (turns q) = 1) \<and>
         fs' = fs(math_jsonl \<mapsto> map (\<lambda>r. r\<lparr>updated_question := map_option math_update (turns_str r)\<rparr>)
                              (map assign (filter (\<lambda>q. task q \<noteq> ''AMPS_Hard'') qs)),
                  math_csv \<mapsto> map (\<lambda>r. r\<lparr>updated_question := map_option math_update (turns_str r)\<rparr>)
                              (map assign (filter (\<lambda>q. task q \<noteq> ''AMPS_Hard'') qs)))"
  using assms unfolding process_math_questions_unfold Let_def
  by (auto split: if_splits)

lemma truncate_assign:
  "question.truncate (r\<lparr>updated_question := u\<rparr>) = question.truncate r"
  "question.truncate (r\<lparr>data_point_id := d\<rparr>) = question.truncate r"
  "question.truncate (assign q) = q\<lparr>ground_truth := strip (ground_truth q)\<rparr>"
  by (simp_all add: question.truncate_def assign_def)

text \<open>
  Claim C7, as amended. The claim reads: the written files contain exactly one record per
  input record, and no input record is dropped. \<open>process_math_questions\<close> drops the
  records whose task is \<open>AMPS_Hard\<close>. What holds: when a stage function succeeds, both
  of its files hold, in input order, one row per record it keeps (every record for
  \<open>process_reasoning_questions\<close>; the records with another task for
  \<open>process_math_questions\<close>); the row carries the record's \<open>turns\<close> and \<open>task\<close>, its
  stripped \<open>ground_truth\<close>, and the rewritten text of its single turn in
  \<open>updated_question\<close>.
\<close>

theorem one_output_record_per_kept_record:
  "(process_reasoning_questions qs fs = (Inr (), fs') \<longrightarrow>
      (\<exists>out. fs' reasoning_jsonl = Some out \<and> fs' reasoning_csv = Some out \<and>
         length out = length qs \<and>
         map question.truncate out = map (\<lambda>q. q\<lparr>ground_truth := strip (ground_truth q)\<rparr>) qs \<and>
         map updated_question out = map (\<lambda>q. Some (reasoning_update (hd (turns q)))) qs)) \<and>
   (process_math_questions qs fs = (Inr (), fs'') \<longrightarrow>
      (\<exists>out. fs'' math_jsonl = Some out \<and> fs'' math_csv = Some out \<and>
         length out = length (filter (\<lambda>q. task q \<noteq> ''AMPS_Hard'') qs) \<and>
         map question.truncate out =
           map (\<lambda>q. q\<lparr>ground_truth := strip (ground_truth q)\<rparr>)
             (filter (\<lambda>q. task q \<noteq> ''AMPS_Hard'') qs) \<and>
         map updated_question out =
           map (\<lambda>q. Some (math_update (hd (turns q))))
             (filter (\<lambda>q. task q \<noteq> ''AMPS_Hard'') qs)))"
proof (intro conjI impI)
  assume a: "process_reasoning_questions qs fs = (Inr (), fs')"
  let ?out = "map (\<lambda>r. r\<lparr>updated_question := map_option reasoning_update (turns_str r)\<rparr>)
                (reset_index (map assign qs))"
  from process_reasoning_questions_Inr [OF a]
  have ne: "qs \<noteq> []" and one: "\<forall>q \<in> set qs. length (turns q) = 1" by simp_all
  have fs': "fs' = fs(reasoning_jsonl \<mapsto> ?out, reasoning_csv \<mapsto> ?out)"
    using a process_reasoning_questions_ok [OF ne one, of fs] by simp
  have len: "length ?out = length qs" by (simp add: length_reset_index)
  have tr: "map question.truncate ?out = map (\<lambda>q. q\<lparr>ground_truth := strip (ground_truth q)\<rparr>) qs"
    by (rule nth_equalityI)
      (simp_all add: length_reset_index nth_reset_index truncate_assign)
  have up: "map updated_question ?out = map (\<lambda>q. Some (reasoning_update (hd (turns q)))) qs"
    using one
    by (intro nth_equalityI)
      (simp_all add: length_reset_index nth_reset_index turns_str_assign_single)
  show "\<exists>out. fs' reasoning_jsonl = Some out \<and> fs' reasoning_csv = Some out \<and>
         length out = length qs \<and>
         map question.truncate out = map (\<lambda>q. q\<lparr>ground_truth := strip (ground_truth q)\<rparr>) qs \<and>
         map updated_question out = map (\<lambda>q. Some (reasoning_update (hd (turns q)))) qs"
    using fs' len tr up paths_distinct by (intro exI [of _ ?out]) simp
next
  assume a: "process_math_questions qs fs = (Inr (), fs'')"
  let ?ks = "filter (\<lambda>q. task q \<noteq> ''AMPS_Hard'') qs"
  let ?out = "map (\<lambda>r. r\<lparr>updated_question := map_option math_update (turns_str r)\<rparr>)
                (map assign ?ks)"
  from process_math_questions_Inr [OF a]
  have one: "\<forall>q \<in> set ?ks. length (turns q) = 1"
    and fs'': "fs'' = fs(math_jsonl \<mapsto> ?out, math_csv \<mapsto> ?out)" by blast+
  have tr: "map question.truncate ?out = map (\<lambda>q. q\<lparr>ground_truth := strip (ground_truth q)\<rparr>) ?ks"
    by (simp add: truncate_assign comp_def)
  have up: "map updated_question ?out = map (\<lambda>q. Some (math_update (hd (turns q)))) ?ks"
    using one by (simp add: turns_str_assign_single comp_def)
  show "\<exists>out. fs'' math_jsonl = Some out \<and> fs'' math_csv = Some out \<and>
         length out = length ?ks \<and>
         map question.truncate out = map (\<lambda>q. q\<lparr>ground_truth := strip (ground_truth q)\<rparr>) ?ks \<and>
         map updated_question out = map (\<lambda>q. Some (math_update (hd (turns q)))) ?ks"
    using fs'' tr up paths_distinct by (intro exI [of _ ?out]) simp
qed


text \<open>Two records, one of them an \<open>AMPS_Hard\<close> one: two rows for reasoning, one for math.\<close>

theorem one_output_record_per_kept_record_witness:
  "(\<exists>out. snd (process_reasoning_questions
                 [\<lparr>turns = [''Differentiate x.''], ground_truth = ''1'', task = ''AMPS_Hard''\<rparr>,
                  \<lparr>turns = [''Who lies?''], ground_truth = '' yes'', task = ''web_of_lies_v2''\<rparr>]
                 Map.empty) reasoning_jsonl = Some out \<and> length out = 2) \<and>
   (\<exists>out. snd (process_math_questions
                 [\<lparr>turns = [''Differentiate x.''], ground_truth = ''1'', task = ''AMPS_Hard''\<rparr>,
                  \<lparr>turns = [''Who lies?''], ground_truth = '' yes'', task = ''web_of_lies_v2''\<rparr>]
                 Map.empty) math_jsonl = Some out \<and> length out = 1)"
proof -
  let ?qs = "[\<lparr>turns = [''Differentiate x.''], ground_truth = ''1'', task = ''AMPS_Hard''\<rparr>,
              \<lparr>turns = [''Who lies?''], ground_truth = '' yes'', task = ''web_of_lies_v2''\<rparr>]"
  have a: "process_reasoning_questions ?qs Map.empty =
           (Inr (), snd (process_reasoning_questions ?qs Map.empty))"
    by (simp add: process_reasoning_questions_ok)
  have b: "process_math_questions ?qs Map.empty =
           (Inr (), snd (process_math_questions ?qs Map.empty))"
    by (simp add: process_math_questions_unfold Let_def)
  show ?thesis
    using one_output_record_per_kept_record
      [of ?qs Map.empty "snd (process_reasoning_questions ?qs Map.empty)"
          "snd (process_math_questions ?qs Map.empty)"] a b
    by auto
qed

text \<open>
  The claim C7 as stated fails: two well-formed input records, one output row in each
  file of \<open>process_math_questions\<close>.
\<close>

lemma math_update_lies: "math_update ''Who lies?'' = ''Who lies?''"
  by code_simp

lemma strip_yes: "strip '' yes'' = ''yes''"
  by code_simp

theorem one_output_record_per_input_record_counterexample:
  "process_math_questions
     [\<lparr>turns = [''Differentiate x.''], ground_truth = ''1'', task = ''AMPS_Hard''\<rparr>,
      \<lparr>turns = [''Who lies?''], ground_truth = '' yes'', task = ''web_of_lies_v2''\<rparr>] Map.empty
   = (Inr (),
      [math_jsonl \<mapsto>
         [\<lparr>turns = [''Who lies?''], ground_truth = ''yes'', task = ''web_of_lies_v2'',
           turns_str = Some ''Who lies?'', data_point_id = None,
           updated_question = Some ''Who lies?''\<rparr>],
       math_csv \<mapsto>
         [\<lparr>turns = [''Who lies?''], ground_truth = ''yes'', task = ''web_of_lies_v2'',
           turns_str = Some ''Who lies?'', data_point_id = None,
           updated_question = Some ''Who lies?''\<rparr>]])"
  by (simp add: process_math_questions_unfold Let_def assign_def str_getitem0_def
      math_update_lies strip_yes)

section \<open>The two versions of the script\<close>

lemma updates_differ_at:
  "reasoning_update ''answer in **bold** now'' = ''answer  now'' \<and>
   extras_reasoning_update ''answer in **bold** now'' = ''answer now''"
  by code_simp

text \<open>
  Claim C8. The two versions of \<open>process_reasoning_questions\<close> differ as the
  specification says. Their replacement chains differ on some string. They succeed and
  fail on the same inputs, with the same error. When they succeed, row \<open>i\<close> of the
  scripts/ version has \<open>data_point_id = i\<close>, its positional index, and row \<open>i\<close> of the
  extras/ version has no such column; the \<open>updated_question\<close> columns come from the
  respective chains; and every other column of the two rows agrees.
\<close>

theorem versions_differ:
  "(\<exists>s. reasoning_update s \<noteq> extras_reasoning_update s) \<and>
   fst (process_reasoning_questions qs fs) = fst (extras_process_reasoning_questions qs fs) \<and>
   (process_reasoning_questions qs fs = (Inr (), fs') \<longrightarrow>
      (\<exists>out out'.
          fs' = fs(reasoning_jsonl \<mapsto> out, reasoning_csv \<mapsto> out) \<and>
          extras_process_reasoning_questions qs fs =
            (Inr (), fs(reasoning_jsonl \<mapsto> out', reasoning_csv \<mapsto> out')) \<and>
          length out = length qs \<and> length out' = length qs \<and>
          (\<forall>i < length qs.
              data_point_id (out ! i) = Some i \<and>
              data_point_id (out' ! i) = None \<and>
              updated_question (out ! i) = Some (reasoning_update (hd (turns (qs ! i)))) \<and>
              updated_question (out' ! i) = Some (extras_reasoning_update (hd (turns (qs ! i)))) \<and>
              (out ! i)\<lparr>data_point_id := None, updated_question := None\<rparr> =
                (out' ! i)\<lparr>updated_question := None\<rparr>)))"
proof (intro conjI impI)
  have "reasoning_update ''answer in **bold** now'' \<noteq> extras_reasoning_update ''answer in **bold** now''"
    using updates_differ_at by simp
  then show "\<exists>s. reasoning_update s \<noteq> extras_reasoning_update s" by blast
next
  show "fst (process_reasoning_questions qs fs) = fst (extras_process_reasoning_questions qs fs)"
    by (simp add: process_reasoning_questions_def extras_process_reasoning_questions_def
        turns_len_reset_index turns_len_assign Let_def)
next
  assume a: "process_reasoning_questions qs fs = (Inr (), fs')"
  let ?out = "map (\<lambda>r. r\<lparr>updated_question := map_option reasoning_update (turns_str r)\<rparr>)
                (reset_index (map assign qs))"
  let ?out' = "map (\<lambda>r. r\<lparr>updated_question := map_option extras_reasoning_update (turns_str r)\<rparr>)
                (map assign qs)"
  from process_reasoning_questions_Inr [OF a]
  have ne: "qs \<noteq> []" and one: "\<forall>q \<in> set qs. length (turns q) = 1" by simp_all
  have fs': "fs' = fs(reasoning_jsonl \<mapsto> ?out, reasoning_csv \<mapsto> ?out)"
    using a process_reasoning_questions_ok [OF ne one, of fs] by simp
  have ex: "extras_process_reasoning_questions qs fs =
            (Inr (), fs(reasoning_jsonl \<mapsto> ?out', reasoning_csv \<mapsto> ?out'))"
    by (rule extras_process_reasoning_questions_ok [OF ne one])
  have rows: "\<forall>i < length qs.
              data_point_id (?out ! i) = Some i \<and>
              data_point_id (?out' ! i) = None \<and>
              updated_question (?out ! i) = Some (reasoning_update (hd (turns (qs ! i)))) \<and>
              updated_question (?out' ! i) = Some (extras_reasoning_update (hd (turns (qs ! i)))) \<and>
              (?out ! i)\<lparr>data_point_id := None, updated_question := None\<rparr> =
                (?out' ! i)\<lparr>updated_question := None\<rparr>"
  proof (intro allI impI)
    fix i assume i: "i < length qs"
    then have "length (turns (qs ! i)) = 1" using one by simp
    then have ts: "turns_str (assign (qs ! i)) = Some (hd (turns (qs ! i)))"
      by (rule turns_str_assign_single)
    have dp: "data_point_id (assign (qs ! i)) = None" by (simp add: assign_def)
    show "data_point_id (?out ! i) = Some i \<and>
          data_point_id (?out' ! i) = None \<and>
          updated_question (?out ! i) = Some (reasoning_update (hd (turns (qs ! i)))) \<and>
          updated_question (?out' ! i) = Some (extras_reasoning_update (hd (turns (qs ! i)))) \<and>
          (?out ! i)\<lparr>data_point_id := None, updated_question := None\<rparr> =
            (?out' ! i)\<lparr>updated_question := None\<rparr>"
      using i ts dp by (simp add: length_reset_index nth_reset_index assign_def)
  qed
  show "\<exists>out out'.
          fs' = fs(reasoning_jsonl \<mapsto> out, reasoning_csv \<mapsto> out) \<and>
          extras_process_reasoning_questions qs fs =
            (Inr (), fs(reasoning_jsonl \<mapsto> out', reasoning_csv \<mapsto> out')) \<and>
          length out = length qs \<and> length out' = length qs \<and>
          (\<forall>i < length qs.
              data_point_id (out ! i) = Some i \<and>
              data_point_id (out' ! i) = None \<and>
              updated_question (out ! i) = Some (reasoning_update (hd (turns (qs ! i)))) \<and>
              updated_question (out' ! i) = Some (extras_reasoning_update (hd (turns (qs ! i)))) \<and>
              (out ! i)\<lparr>data_point_id := None, updated_question := None\<rparr> =
                (out' ! i)\<lparr>updated_question := None\<rparr>)"
    apply (rule exI [of _ ?out])
    apply (rule exI [of _ ?out'])
    using fs' ex rows by (simp add: length_reset_index)
qed

text \<open>Two records: the identifiers are \<open>0, 1\<close> in one version and absent in the other.\<close>

theorem versions_differ_witness:
  "map data_point_id
     (the (snd (process_reasoning_questions
                  [\<lparr>turns = [''Who lies?''], ground_truth = ''yes'', task = ''web_of_lies_v2''\<rparr>,
                   \<lparr>turns = [''Who sits?''], ground_truth = ''no'', task = ''zebra_puzzle''\<rparr>]
                  Map.empty) reasoning_jsonl)) = [Some 0, Some 1] \<and>
   map data_point_id
     (the (snd (extras_process_reasoning_questions
                  [\<lparr>turns = [''Who lies?''], ground_truth = ''yes'', task = ''web_of_lies_v2''\<rparr>,
                   \<lparr>turns = [''Who sits?''], ground_truth = ''no'', task = ''zebra_puzzle''\<rparr>]
                  Map.empty) reasoning_jsonl)) = [None, None]"
proof -
  let ?qs = "[\<lparr>turns = [''Who lies?''], ground_truth = ''yes'', task = ''web_of_lies_v2''\<rparr>,
              \<lparr>turns = [''Who sits?''], ground_truth = ''no'', task = ''zebra_puzzle''\<rparr>]"
  have a: "process_reasoning_questions ?qs Map.empty =
           (Inr (), snd (process_reasoning_questions ?qs Map.empty))"
    by (simp add: process_reasoning_questions_ok)
  from versions_differ [of ?qs Map.empty "snd (process_reasoning_questions ?qs Map.empty)"] a
  obtain out out' where o:
    "snd (process_reasoning_questions ?qs Map.empty) = [reasoning_jsonl \<mapsto> out, reasoning_csv \<mapsto> out]"
    "extras_process_reasoning_questions ?qs Map.empty =
       (Inr (), [reasoning_jsonl \<mapsto> out', reasoning_csv \<mapsto> out'])"
    "length out = 2" "length out' = 2"
    "\<forall>i < 2. data_point_id (out ! i) = Some i \<and> data_point_id (out' ! i) = None"
    by auto
  have "map data_point_id out = [Some 0, Some 1]"
    using o(3,5) by (intro nth_equalityI) (auto simp: less_Suc_eq numeral_2_eq_2)
  moreover have "map data_point_id out' = [None, None]"
    using o(4,5) by (intro nth_equalityI) (auto simp: less_Suc_eq numeral_2_eq_2)
  ultimately show ?thesis
    using o(1,2) paths_distinct by simp
qed

section \<open>The event loop and the two stages\<close>

subsection \<open>The semaphore invariant\<close>

lemma count_list_update:
  "i < length xs \<Longrightarrow>
   length (filter P (xs[i := y])) + (if P (xs ! i) then 1 else 0) =
   length (filter P xs) + (if P y then 1 else 0)"
proof (induction xs arbitrary: i)
  case Nil
  then show ?case by simp
next
  case (Cons x xs)
  then show ?case by (cases i) auto
qed

lemma in_flight_update_Waiting:
  "i < length (tasks s) \<Longrightarrow> tasks s ! i = Waiting \<Longrightarrow>
   in_flight (s\<lparr>tasks := (tasks s)[i := InFlight]\<rparr>) = Suc (in_flight s)"
  using count_list_update [of i "tasks s" is_in_flight InFlight]
  by (simp add: in_flight_def)

lemma in_flight_update_Done:
  "i < length (tasks s) \<Longrightarrow> tasks s ! i = InFlight \<Longrightarrow>
   Suc (in_flight (s\<lparr>tasks := (tasks s)[i := Done r]\<rparr>)) = in_flight s"
  using count_list_update [of i "tasks s" is_in_flight "Done r"]
  by (simp add: in_flight_def)

lemma in_flight_cong:
  "tasks s' = tasks s \<Longrightarrow> in_flight s' = in_flight s"
  by (simp add: in_flight_def)

lemma length_tasks_acquire [simp]: "length (tasks (acquire i s)) = length (tasks s)"
  by (simp add: acquire_def)

lemma length_tasks_wake_up_next [simp]: "length (tasks (wake_up_next s)) = length (tasks s)"
  by (simp add: wake_up_next_def split: list.splits)

lemma length_tasks_release [simp]: "length (tasks (release s)) = length (tasks s)"
  by (simp add: release_def)

lemma length_tasks_complete [simp]: "length (tasks (complete calls i s)) = length (tasks s)"
  by (simp add: complete_def)

lemma sem_inv_acquire:
  assumes inv: "sem_inv K m s" and m: "m < length (tasks s)"
  shows "sem_inv K (Suc m) (acquire m s)"
proof -
  have w: "tasks s ! m = Waiting" using inv m by (simp add: sem_inv_def)
  show ?thesis
  proof (cases "0 < sem_value s \<and> sem_waiters s = []")
    case True
    let ?s' = "s\<lparr>sem_value := sem_value s - 1, tasks := (tasks s)[m := InFlight]\<rparr>"
    have a: "acquire m s = ?s'" using True by (simp add: acquire_def)
    have fl: "in_flight ?s' = Suc (in_flight s)"
      using in_flight_update_Waiting [OF m w] by (simp add: in_flight_def)
    have none: "\<forall>i. i < m \<and> i < length (tasks s) \<longrightarrow> tasks s ! i \<noteq> Waiting"
      using inv True by (auto simp: sem_inv_def)
    show ?thesis
      unfolding a sem_inv_def using inv True fl none m
      by (auto simp: sem_inv_def nth_list_update less_Suc_eq)
  next
    case False
    let ?s' = "s\<lparr>sem_waiters := sem_waiters s @ [m]\<rparr>"
    have a: "acquire m s = ?s'" using False by (auto simp: acquire_def)
    have fl: "in_flight ?s' = in_flight s" by (simp add: in_flight_def)
    have v: "sem_value s = 0" using inv False by (auto simp: sem_inv_def)
    show ?thesis
      unfolding a sem_inv_def using inv fl v m w
      by (auto simp: sem_inv_def less_Suc_eq)
  qed
qed


lemma start_Suc: "start K n (Suc m) = acquire m (start K n m)"
  by (simp add: start_def)

lemma length_tasks_start [simp]: "length (tasks (start K n m :: 'a loop)) = n"
  by (induction m) (simp_all add: start_Suc, simp add: start_def)

lemma sem_inv_start: "m \<le> n \<Longrightarrow> sem_inv K m (start K n m :: 'a loop)"
proof (induction m)
  case 0
  show ?case by (simp add: start_def sem_inv_def in_flight_def)
next
  case (Suc m)
  then have "sem_inv K m (start K n m :: 'a loop)"
    and "m < length (tasks (start K n m :: 'a loop))" by simp_all
  then show ?case unfolding start_Suc by (rule sem_inv_acquire)
qed

lemma sem_inv_complete:
  assumes inv: "sem_inv K (length (tasks s)) s"
  shows "sem_inv K (length (tasks s)) (complete calls i s)"
proof (cases "i < length (tasks s) \<and> i < length calls \<and> tasks s ! i = InFlight")
  case False
  then show ?thesis using inv by (auto simp: complete_def)
next
  case True
  define r where "r = calls ! i"
  define e where "e = (case raised s of Some e \<Rightarrow> Some e
                       | None \<Rightarrow> (case calls ! i of Inl e \<Rightarrow> Some e | Inr _ \<Rightarrow> None))"
  define s1 where "s1 = s\<lparr>tasks := (tasks s)[i := Done r], raised := e\<rparr>"
  have c: "complete calls i s = wake_up_next (s1\<lparr>sem_value := sem_value s1 + 1\<rparr>)"
    using True by (simp add: complete_def release_def s1_def r_def e_def)
  have i: "i < length (tasks s)" and fl: "tasks s ! i = InFlight" using True by simp_all
  have fl1: "Suc (in_flight s1) = in_flight s"
    using in_flight_update_Done [OF i fl, of r] by (simp add: s1_def in_flight_def)
  have len1: "length (tasks s1) = length (tasks s)" by (simp add: s1_def)
  have w1: "\<And>j. j < length (tasks s) \<Longrightarrow> tasks s1 ! j = Waiting \<longleftrightarrow> tasks s ! j = Waiting"
    using fl i by (auto simp: s1_def nth_list_update split: if_splits)
  show ?thesis
  proof (cases "sem_waiters s")
    case Nil
    then have "complete calls i s = s1\<lparr>sem_value := sem_value s1 + 1\<rparr>"
      unfolding c by (simp add: wake_up_next_def s1_def)
    moreover have "in_flight (s1\<lparr>sem_value := sem_value s1 + 1\<rparr>) = in_flight s1"
      by (simp add: in_flight_def)
    ultimately show ?thesis
      using inv Nil fl1 w1 len1 unfolding sem_inv_def
      by (auto simp: s1_def)
  next
    case (Cons j ws)
    let ?s2 = "s1\<lparr>sem_value := sem_value s1, sem_waiters := ws,
                   tasks := (tasks s1)[j := InFlight]\<rparr>"
    have c2: "complete calls i s = ?s2"
      unfolding c using Cons by (simp add: wake_up_next_def s1_def)
    have v: "sem_value s = 0" using inv Cons by (simp add: sem_inv_def)
    have j: "j < length (tasks s)" "tasks s ! j = Waiting" "j \<notin> set ws" "distinct ws"
      using inv Cons by (auto simp: sem_inv_def)
    have ws: "set ws = {k. k < length (tasks s) \<and> tasks s ! k = Waiting} - {j}"
      using inv Cons j by (auto simp: sem_inv_def)
    have j1: "j < length (tasks s1)" "tasks s1 ! j = Waiting"
      using j w1 len1 by simp_all
    have fl2: "in_flight ?s2 = Suc (in_flight s1)"
      using in_flight_update_Waiting [OF j1] by (simp add: in_flight_def)
    have w2: "\<And>k. k < length (tasks s) \<Longrightarrow>
                tasks ?s2 ! k = Waiting \<longleftrightarrow> (tasks s ! k = Waiting \<and> k \<noteq> j)"
      using w1 len1 j(1) by (auto simp: nth_list_update split: if_splits)
    have "sem_value ?s2 + in_flight ?s2 = K"
      using inv fl1 fl2 by (simp add: sem_inv_def s1_def)
    moreover have "sem_value ?s2 = 0" using v by (simp add: s1_def)
    moreover have "set (sem_waiters ?s2) =
        {k. k < length (tasks s) \<and> k < length (tasks ?s2) \<and> tasks ?s2 ! k = Waiting}"
      using ws w2 len1 by auto
    moreover have "length (tasks ?s2) = length (tasks s)" using len1 by simp
    ultimately show ?thesis
      unfolding c2 sem_inv_def using j(4) by (simp add: in_flight_def)
  qed
qed

lemma length_tasks_gather [simp]: "length (tasks (gather calls K sched)) = length calls"
proof -
  have "length (tasks (fold (complete calls) sched s)) = length (tasks s)" for s :: "'a loop"
    by (induction sched arbitrary: s) simp_all
  then show ?thesis by (simp add: gather_def)
qed

lemma sem_inv_fold_complete:
  "sem_inv K (length (tasks s)) s \<Longrightarrow>
   sem_inv K (length (tasks s)) (fold (complete calls) sched s)"
proof (induction sched arbitrary: s)
  case Nil
  then show ?case by simp
next
  case (Cons i sched)
  have "sem_inv K (length (tasks (complete calls i s))) (complete calls i s)"
    using sem_inv_complete [OF Cons.prems] by simp
  from Cons.IH [OF this] show ?case by simp
qed

lemma sem_inv_gather: "sem_inv K (length calls) (gather calls K sched)"
proof -
  let ?s = "start K (length calls) (length calls) :: 'a loop"
  have "sem_inv K (length (tasks ?s)) ?s"
    using sem_inv_start [of "length calls" "length calls" K] by simp
  from sem_inv_fold_complete [OF this, of calls sched] show ?thesis
    by (simp add: gather_def)
qed

lemma in_flight_le: "sem_inv K m s \<Longrightarrow> in_flight s \<le> K"
  by (auto simp: sem_inv_def)

lemma waiting_full:
  "sem_inv K (length (tasks s)) s \<Longrightarrow> i < length (tasks s) \<Longrightarrow> tasks s ! i = Waiting \<Longrightarrow>
   in_flight s = K"
proof -
  assume inv: "sem_inv K (length (tasks s)) s" and i: "i < length (tasks s)" "tasks s ! i = Waiting"
  then have "i \<in> set (sem_waiters s)" by (simp add: sem_inv_def)
  then have "sem_waiters s \<noteq> []" by auto
  then have "sem_value s = 0" using inv by (simp add: sem_inv_def)
  then show ?thesis using inv by (simp add: sem_inv_def)
qed


lemma tasks_complete:
  assumes inv: "sem_inv K (length (tasks s)) s"
    and c: "i < length (tasks s)" "i < length calls" "tasks s ! i = InFlight"
  shows "\<exists>js. (js = [] \<or> (\<exists>j. js = [j] \<and> j < length (tasks s) \<and> tasks s ! j = Waiting)) \<and>
           tasks (complete calls i s) =
             fold (\<lambda>j ts. ts[j := InFlight]) js ((tasks s)[i := Done (calls ! i)])"
proof (cases "sem_waiters s")
  case Nil
  then have "tasks (complete calls i s) = (tasks s)[i := Done (calls ! i)]"
    using c by (simp add: complete_def release_def wake_up_next_def)
  then show ?thesis by (intro exI [of _ "[]"]) simp
next
  case (Cons j ws)
  then have "tasks (complete calls i s) = ((tasks s)[i := Done (calls ! i)])[j := InFlight]"
    using c by (simp add: complete_def release_def wake_up_next_def)
  moreover have "j < length (tasks s) \<and> tasks s ! j = Waiting"
    using inv Cons by (auto simp: sem_inv_def)
  ultimately show ?thesis by (intro exI [of _ "[j]"]) simp
qed

lemma raised_complete:
  assumes "i < length (tasks s)" "i < length calls" "tasks s ! i = InFlight"
  shows "raised (complete calls i s) =
           (case raised s of Some e \<Rightarrow> Some e
            | None \<Rightarrow> (case calls ! i of Inl e \<Rightarrow> Some e | Inr _ \<Rightarrow> None))"
  using assms by (simp add: complete_def release_def wake_up_next_def split: list.splits)

lemma res_inv_complete:
  assumes sem: "sem_inv K (length (tasks s)) s" and res: "res_inv calls s"
  shows "res_inv calls (complete calls i s)"
proof (cases "i < length (tasks s) \<and> i < length calls \<and> tasks s ! i = InFlight")
  case False
  then show ?thesis using res by (auto simp: complete_def)
next
  case True
  then have c: "i < length (tasks s)" "i < length calls" "tasks s ! i = InFlight" by simp_all
  have len: "length (tasks s) = length calls" using res by (simp add: res_inv_def)
  from tasks_complete [OF sem c] obtain js where
    js: "js = [] \<or> (\<exists>j. js = [j] \<and> j < length (tasks s) \<and> tasks s ! j = Waiting)"
    and t: "tasks (complete calls i s) =
              fold (\<lambda>j ts. ts[j := InFlight]) js ((tasks s)[i := Done (calls ! i)])"
    by blast
  have nth: "tasks (complete calls i s) ! k =
               (if k = i then Done (calls ! i)
                else if k \<in> set js then InFlight else tasks s ! k)"
    if "k < length calls" for k
    using js that c len unfolding t by (auto simp: nth_list_update)
  have keep: "tasks (complete calls i s) ! k = Done r \<longleftrightarrow>
                (if k = i then r = calls ! i else tasks s ! k = Done r)"
    if "k < length calls" for k r
    using js that c len unfolding nth [OF that] by auto
  have r: "raised (complete calls i s) =
           (case raised s of Some e \<Rightarrow> Some e
            | None \<Rightarrow> (case calls ! i of Inl e \<Rightarrow> Some e | Inr _ \<Rightarrow> None))"
    by (rule raised_complete [OF c])
  have a: "\<forall>k < length calls. \<forall>r. tasks (complete calls i s) ! k = Done r \<longrightarrow> r = calls ! k"
    using res keep by (auto simp: res_inv_def split: if_splits)
  have b: "(case raised (complete calls i s) of
              None \<Rightarrow> \<forall>k < length calls. \<forall>e. tasks (complete calls i s) ! k \<noteq> Done (Inl e)
            | Some e \<Rightarrow> \<exists>k < length calls. tasks (complete calls i s) ! k = Done (Inl e))"
  proof (cases "raised s")
    case (Some e)
    then obtain k where k: "k < length calls" "tasks s ! k = Done (Inl e)"
      using res by (auto simp: res_inv_def)
    then have "k \<noteq> i" using c by auto
    then have "tasks (complete calls i s) ! k = Done (Inl e)" using keep [OF k(1)] k(2) by simp
    then show ?thesis unfolding r Some using k(1) by auto
  next
    case None
    then have old: "\<forall>k < length calls. \<forall>e. tasks s ! k \<noteq> Done (Inl e)"
      using res by (auto simp: res_inv_def)
    show ?thesis
    proof (cases "calls ! i")
      case (Inl e)
      have "tasks (complete calls i s) ! i = Done (Inl e)" using keep [OF c(2)] Inl by simp
      then show ?thesis unfolding r None Inl using c(2) by auto
    next
      case (Inr v)
      have "\<forall>k < length calls. \<forall>e. tasks (complete calls i s) ! k \<noteq> Done (Inl e)"
        using old keep Inr by (auto split: if_splits)
      then show ?thesis unfolding r None Inr by simp
    qed
  qed
  show ?thesis unfolding res_inv_def using a b len by simp
qed

lemma tasks_start_not_done:
  "raised (start K n m :: 'a loop) = None \<and>
   (\<forall>t \<in> set (tasks (start K n m :: 'a loop)). \<not> is_done t)"
proof (induction m)
  case 0
  show ?case by (simp add: start_def)
next
  case (Suc m)
  let ?s = "start K n m :: 'a loop"
  have "t = InFlight \<or> t \<in> set (tasks ?s)" if "t \<in> set ((tasks ?s)[m := InFlight])" for t
    using that set_update_subset_insert [of "tasks ?s" m InFlight] by auto
  then have "\<not> is_done t" if "t \<in> set ((tasks ?s)[m := InFlight])" for t
    using that Suc by fastforce
  then show ?case using Suc unfolding start_Suc
    by (simp add: acquire_def)
qed

lemma res_inv_start: "res_inv calls (start K (length calls) (length calls))"
proof -
  let ?s = "start K (length calls) (length calls) :: 'a loop"
  have r: "raised ?s = None" and d: "\<forall>t \<in> set (tasks ?s). \<not> is_done t"
    using tasks_start_not_done [of K "length calls" "length calls"] by blast+
  have "tasks ?s ! i \<noteq> Done r" if "i < length calls" for i r
  proof
    assume "tasks ?s ! i = Done r"
    moreover have "tasks ?s ! i \<in> set (tasks ?s)" using that by simp
    ultimately show False using d by (metis is_done.simps(1))
  qed
  then show ?thesis
    using r by (simp add: res_inv_def)
qed

lemma loop_inv_fold_complete:
  "sem_inv K (length (tasks s)) s \<Longrightarrow> res_inv calls s \<Longrightarrow>
   res_inv calls (fold (complete calls) sched s)"
proof (induction sched arbitrary: s)
  case Nil
  then show ?case by simp
next
  case (Cons i sched)
  have "sem_inv K (length (tasks (complete calls i s))) (complete calls i s)"
    using sem_inv_complete [OF Cons.prems(1)] by simp
  moreover have "res_inv calls (complete calls i s)"
    using res_inv_complete [OF Cons.prems] .
  ultimately show ?case using Cons.IH by simp
qed

lemma res_inv_gather: "res_inv calls (gather calls K sched)"
proof -
  let ?s = "start K (length calls) (length calls) :: 'a loop"
  have "sem_inv K (length (tasks ?s)) ?s"
    using sem_inv_start [of "length calls" "length calls" K] by simp
  from loop_inv_fold_complete [OF this res_inv_start, of sched] show ?thesis
    by (simp add: gather_def)
qed

subsection \<open>What \<open>gather\<close> returns\<close>

lemma those_eq_Some: "those xs = Some ys \<longleftrightarrow> xs = map Some ys"
  by (induction xs arbitrary: ys) (auto split: option.splits)

lemma task_result_Some: "task_result t = Some a \<longleftrightarrow> t = Done (Inr a)"
  by (cases t rule: task_result.cases) auto

lemma gather_result_Inr:
  assumes res: "res_inv calls s" and g: "gather_result s = Some (Inr rs)"
  shows "calls = map Inr rs"
proof -
  have none: "raised s = None" and th: "those (map task_result (tasks s)) = Some rs"
    using g by (auto simp: gather_result_def split: option.splits)
  have m: "map task_result (tasks s) = map Some rs" using th by (simp add: those_eq_Some)
  have len: "length rs = length calls"
    using m res by (metis length_map res_inv_def)
  show ?thesis
  proof (rule nth_equalityI)
    show "length calls = length (map Inr rs)" using len by simp
  next
    fix i assume i: "i < length calls"
    then have "task_result (tasks s ! i) = Some (rs ! i)"
      using m len res by (metis length_map nth_map)
    then have "tasks s ! i = Done (Inr (rs ! i))" by (simp add: task_result_Some)
    then have "calls ! i = Inr (rs ! i)" using res i by (auto simp: res_inv_def)
    then show "calls ! i = map Inr rs ! i" using i len by simp
  qed
qed

lemma gather_result_Inl:
  assumes res: "res_inv calls s" and g: "gather_result s = Some (Inl e)"
  shows "\<exists>i < length calls. calls ! i = Inl e \<and> is_done (tasks s ! i)"
proof -
  have "raised s = Some e"
    using g by (auto simp: gather_result_def split: option.splits)
  then obtain i where "i < length calls" "tasks s ! i = Done (Inl e)"
    using res by (auto simp: res_inv_def)
  moreover from this have "calls ! i = Inl e" using res by (auto simp: res_inv_def)
  ultimately show ?thesis by auto
qed

lemma gather_result_failed:
  assumes res: "res_inv calls s" and i: "i < length calls" "is_done (tasks s ! i)"
    and e: "calls ! i = Inl e"
  shows "\<exists>e'. gather_result s = Some (Inl e')"
proof -
  obtain r where "tasks s ! i = Done r" using i(2) by (cases "tasks s ! i") auto
  then have "tasks s ! i = Done (Inl e)" using res i(1) e by (auto simp: res_inv_def)
  then have "raised s \<noteq> None"
    using res i(1) by (cases "raised s") (auto simp: res_inv_def)
  then show ?thesis by (auto simp: gather_result_def)
qed

lemma gather_result_all_done:
  assumes res: "res_inv calls s" and d: "\<forall>i < length calls. is_done (tasks s ! i)"
    and ok: "calls = map Inr rs"
  shows "gather_result s = Some (Inr rs)"
proof -
  have len: "length (tasks s) = length rs" using res ok by (simp add: res_inv_def)
  have t: "tasks s ! i = Done (Inr (rs ! i))" if "i < length rs" for i
  proof -
    have "is_done (tasks s ! i)" using d that ok by simp
    then obtain r where "tasks s ! i = Done r" by (cases "tasks s ! i") auto
    then show ?thesis using res that ok by (auto simp: res_inv_def)
  qed
  have none: "raised s = None"
  proof (cases "raised s")
    case (Some e)
    then obtain i where "i < length calls" "tasks s ! i = Done (Inl e)"
      using res by (auto simp: res_inv_def)
    then show ?thesis using t ok by auto
  qed simp
  have "map task_result (tasks s) = map Some rs"
    using len t by (intro nth_equalityI) simp_all
  then show ?thesis using none by (simp add: gather_result_def those_eq_Some)
qed

subsection \<open>The stage functions unfolded\<close>

lemma classify_calls:
  "map (\<lambda>(sm, um). run_model_with_instructor create sm um FormatClassification)
     (map classify_message df) = map (classify_call create) df"
  by (simp add: classify_call_def comp_def)

lemma classify_unfold:
  "classify_reasoning_questions create df c sched =
     (if concurrency_of c < 0 then Raised ValueError
      else Gathering (map classify_message df)
             (gather (map (classify_call create) df) (nat (concurrency_of c)) sched))"
  unfolding classify_reasoning_questions_def Let_def classify_calls
  by (simp add: Semaphore_def)

lemma replace_message_Inl:
  "replace_message r = Inl e \<longleftrightarrow> classification r = OTHER \<and> e = KeyError ''OTHER''"
  by (cases "classification r")
    (auto simp: replace_message_def format_mapping_getitem_def format_mapping_def
      format_mapping_items_def)

lemma replace_messages_Inl:
  "replace_messages df = Inl e \<longleftrightarrow>
     (\<exists>r \<in> set df. classification r = OTHER) \<and> e = KeyError ''OTHER''"
proof (induction df)
  case Nil
  show ?case by simp
next
  case (Cons r df)
  show ?case
  proof (cases "replace_message r")
    case (Inl e')
    then show ?thesis using replace_message_Inl [of r e'] by auto
  next
    case (Inr m)
    then have "classification r \<noteq> OTHER"
      using replace_message_Inl [of r "KeyError ''OTHER''"] by auto
    then show ?thesis using Inr Cons by (auto split: sum.splits)
  qed
qed

lemma replace_messages_Inr:
  "replace_messages df = Inr msgs \<Longrightarrow>
   length msgs = length df \<and>
   map (\<lambda>(sm, um). run_model_with_instructor create sm um UpdatedQuestion) msgs =
     map (replace_call create) df"
proof (induction df arbitrary: msgs)
  case Nil
  then show ?case by simp
next
  case (Cons r df)
  then show ?case
    by (auto simp: replace_call_def split: sum.splits)
qed

lemma replace_messages_total:
  "(\<forall>r \<in> set df. classification r \<noteq> OTHER) \<Longrightarrow> \<exists>msgs. replace_messages df = Inr msgs"
  using replace_messages_Inl [of df] by (cases "replace_messages df") auto

lemma replace_unfold:
  "replace_reasoning_questions_format create df c sched =
     (if concurrency_of c < 0 then Raised ValueError
      else case replace_messages df of
             Inl e \<Rightarrow> Raised e
           | Inr msgs \<Rightarrow>
               Gathering msgs
                 (gather (map (replace_call create) df) (nat (concurrency_of c)) sched))"
  by (auto simp: replace_reasoning_questions_format_def Semaphore_def Let_def
      replace_messages_Inr split: sum.splits)

lemma FormatClassification_Inr:
  "FormatClassification raw = Inr t \<Longrightarrow> FormatType_value t = raw \<and> t \<in> set FormatType_members"
  by (auto simp: FormatClassification_def find_Some_iff split: option.splits)

lemma classify_call_Inr:
  "classify_call create r = Inr t \<Longrightarrow>
   create system_prompt_classification_reasoning
     (''Question:\<newline>'' @ format_str (turns_str r)) = Inr (FormatType_value t) \<and>
   t \<in> set FormatType_members"
  by (auto simp: classify_call_def classify_message_def run_model_with_instructor_def
      split: sum.splits dest: FormatClassification_Inr)

lemma run_done_gather:
  "i \<in> run_done (Gathering msgs (gather calls K sched)) \<longleftrightarrow>
     i < length calls \<and> is_done (tasks (gather calls K sched) ! i)"
  by simp

subsection \<open>The concurrency bound\<close>

lemma run_bound:
  assumes r: "r = Gathering msgs (gather calls K sched)"
  shows "run_in_flight r \<le> K \<and> (0 < run_waiting r \<longrightarrow> run_in_flight r = K)"
proof -
  let ?s = "gather calls K sched"
  have inv: "sem_inv K (length (tasks ?s)) ?s" using sem_inv_gather [of K calls sched] by simp
  have le: "in_flight ?s \<le> K" using inv by (rule in_flight_le)
  have full: "in_flight ?s = K" if "0 < length (filter (\<lambda>t. t = Waiting) (tasks ?s))"
  proof -
    from that obtain t where "t \<in> set (tasks ?s)" "t = Waiting"
      by (metis (mono_tags, lifting) filter_False length_greater_0_conv)
    then obtain i where "i < length (tasks ?s)" "tasks ?s ! i = Waiting"
      by (metis in_set_conv_nth)
    then show ?thesis using waiting_full [OF inv] by blast
  qed
  show ?thesis using le full by (simp add: r)
qed

text \<open>
  Claim C3. In every run of either stage with a bound \<open>K \<ge> 0\<close> (30 when the argument
  is left out), after any sequence of call completions at most \<open>K\<close> calls are in
  flight, and a task is suspended in \<open>acquire\<close> only while exactly \<open>K\<close> calls are in
  flight: it goes on when a completion releases a slot. The bound also holds while
  \<open>gather\<close> starts the tasks one after another.
\<close>

theorem concurrency_bound:
  "0 \<le> concurrency_of c \<Longrightarrow>
   int (run_in_flight (classify_reasoning_questions create df c schedule)) \<le> concurrency_of c \<and>
   (0 < run_waiting (classify_reasoning_questions create df c schedule) \<longrightarrow>
      int (run_in_flight (classify_reasoning_questions create df c schedule)) = concurrency_of c) \<and>
   int (run_in_flight (replace_reasoning_questions_format create df' c schedule')) \<le> concurrency_of c \<and>
   (0 < run_waiting (replace_reasoning_questions_format create df' c schedule') \<longrightarrow>
      int (run_in_flight (replace_reasoning_questions_format create df' c schedule')) = concurrency_of c) \<and>
   (\<forall>m \<le> n. int (in_flight (start (nat (concurrency_of c)) n m :: 'a loop)) \<le> concurrency_of c)"
proof -
  assume K: "0 \<le> concurrency_of c"
  let ?K = "nat (concurrency_of c)"
  have a: "run_in_flight (classify_reasoning_questions create df c schedule) \<le> ?K \<and>
        (0 < run_waiting (classify_reasoning_questions create df c schedule) \<longrightarrow>
           run_in_flight (classify_reasoning_questions create df c schedule) = ?K)"
    using K by (intro run_bound) (simp add: classify_unfold)
  have b: "run_in_flight (replace_reasoning_questions_format create df' c schedule') \<le> ?K \<and>
        (0 < run_waiting (replace_reasoning_questions_format create df' c schedule') \<longrightarrow>
           run_in_flight (replace_reasoning_questions_format create df' c schedule') = ?K)"
  proof (cases "replace_messages df'")
    case (Inl e)
    then show ?thesis using K by (simp add: replace_unfold)
  next
    case (Inr msgs)
    then show ?thesis using K by (intro run_bound) (simp add: replace_unfold)
  qed
  have s: "\<forall>m \<le> n. in_flight (start ?K n m :: 'a loop) \<le> ?K"
    using sem_inv_start in_flight_le by blast
  show ?thesis using a b s K by (auto simp: nat_le_iff nat_eq_iff)
qed

text \<open>Three records under a bound of two: two calls in flight, one task suspended.\<close>

theorem concurrency_bound_witness:
  "run_waiting
     (classify_reasoning_questions (\<lambda>sm um. Inr (FormatType_value T4))
        [\<lparr>turns = [''A''], ground_truth = ''1'', task = ''t'', turns_str = Some ''A'',
          data_point_id = None, updated_question = Some ''A''\<rparr>,
         \<lparr>turns = [''B''], ground_truth = ''2'', task = ''t'', turns_str = Some ''B'',
          data_point_id = None, updated_question = Some ''B''\<rparr>,
         \<lparr>turns = [''C''], ground_truth = ''3'', task = ''t'', turns_str = Some ''C'',
          data_point_id = None, updated_question = Some ''C''\<rparr>]
        (Some 2) []) = 1 \<and>
   run_in_flight
     (classify_reasoning_questions (\<lambda>sm um. Inr (FormatType_value T4))
        [\<lparr>turns = [''A''], ground_truth = ''1'', task = ''t'', turns_str = Some ''A'',
          data_point_id = None, updated_question = Some ''A''\<rparr>,
         \<lparr>turns = [''B''], ground_truth = ''2'', task = ''t'', turns_str = Some ''B'',
          data_point_id = None, updated_question = Some ''B''\<rparr>,
         \<lparr>turns = [''C''], ground_truth = ''3'', task = ''t'', turns_str = Some ''C'',
          data_point_id = None, updated_question = Some ''C''\<rparr>]
        (Some 2) []) = 2 \<and>
   run_waiting
     (replace_reasoning_questions_format (\<lambda>sm um. Inr (FormatType_value T4))
        [\<lparr>turns = [''A''], ground_truth = ''1'', task = ''t'', turns_str = Some ''A'',
          data_point_id = None, updated_question = Some ''A'', classification = T1\<rparr>,
         \<lparr>turns = [''B''], ground_truth = ''2'', task = ''t'', turns_str = Some ''B'',
          data_point_id = None, updated_question = Some ''B'', classification = T4\<rparr>,
         \<lparr>turns = [''C''], ground_truth = ''3'', task = ''t'', turns_str = Some ''C'',
          data_point_id = None, updated_question = Some ''C'', classification = T5\<rparr>]
        (Some 2) []) = 1 \<and>
   run_in_flight
     (replace_reasoning_questions_format (\<lambda>sm um. Inr (FormatType_value T4))
        [\<lparr>turns = [''A''], ground_truth = ''1'', task = ''t'', turns_str = Some ''A'',
          data_point_id = None, updated_question = Some ''A'', classification = T1\<rparr>,
         \<lparr>turns = [''B''], ground_truth = ''2'', task = ''t'', turns_str = Some ''B'',
          data_point_id = None, updated_question = Some ''B'', classification = T4\<rparr>,
         \<lparr>turns = [''C''], ground_truth = ''3'', task = ''t'', turns_str = Some ''C'',
          data_point_id = None, updated_question = Some ''C'', classification = T5\<rparr>]
        (Some 2) []) = 2"
  (is "run_waiting ?r = 1 \<and> run_in_flight ?r = 2 \<and> run_waiting ?r' = 1 \<and> run_in_flight ?r' = 2")
proof -
  have k: "0 \<le> concurrency_of (Some 2)" and k2: "concurrency_of (Some 2) = 2"
    by (simp_all add: concurrency_of_def)
  have w: "run_waiting ?r = 1" by code_simp
  have w': "run_waiting ?r' = 1" by code_simp
  note b = concurrency_bound [OF k, where n = 0 and create = "\<lambda>sm um. Inr (FormatType_value T4)"]
  have "0 < run_waiting ?r \<longrightarrow> int (run_in_flight ?r) = 2"
    using b [of _ "[]"] unfolding k2 by blast
  then have f: "run_in_flight ?r = 2" using w by simp
  have "0 < run_waiting ?r' \<longrightarrow> int (run_in_flight ?r') = 2"
    using b [of _ _ _ "[]"] unfolding k2 by blast
  then have f': "run_in_flight ?r' = 2" using w' by simp
  show ?thesis using w f w' f' by blast
qed

subsection \<open>The rewriter and the label \<open>OTHER\<close>\<close>

text \<open>
  Claim C9. With a valid bound, a data frame that holds a row labelled \<open>OTHER\<close> makes
  the rewriter raise \<open>KeyError\<close> while it builds its messages: the run never reaches
  \<open>gather\<close>, so no model call has been issued. When no row is labelled \<open>OTHER\<close>, the
  template lookup succeeds for every row and one message per row is built.
\<close>

theorem rewrite_raises_on_OTHER:
  "0 \<le> concurrency_of c \<Longrightarrow>
   ((\<exists>r \<in> set df. classification r = OTHER) \<longrightarrow>
      replace_reasoning_questions_format create df c schedule = Raised (KeyError ''OTHER'') \<and>
      run_result (replace_reasoning_questions_format create df c schedule)
        = Some (Inl (KeyError ''OTHER'')) \<and>
      run_submitted (replace_reasoning_questions_format create df c schedule) = []) \<and>
   ((\<forall>r \<in> set df. classification r \<noteq> OTHER) \<longrightarrow>
      (\<forall>r \<in> set df. \<exists>v. format_mapping_getitem (FormatType_name (classification r)) = Inr v) \<and>
      (\<exists>msgs. replace_messages df = Inr msgs \<and> length msgs = length df))"
proof (intro conjI impI)
  assume K: "0 \<le> concurrency_of c" and o: "\<exists>r \<in> set df. classification r = OTHER"
  then have "replace_messages df = Inl (KeyError ''OTHER'')"
    using replace_messages_Inl [of df "KeyError ''OTHER''"] by simp
  then show r: "replace_reasoning_questions_format create df c schedule = Raised (KeyError ''OTHER'')"
    using K by (simp add: replace_unfold)
  show "run_result (replace_reasoning_questions_format create df c schedule)
        = Some (Inl (KeyError ''OTHER''))" unfolding r by simp
  show "run_submitted (replace_reasoning_questions_format create df c schedule) = []"
    unfolding r by simp
next
  assume n: "\<forall>r \<in> set df. classification r \<noteq> OTHER"
  show "\<forall>r \<in> set df. \<exists>v. format_mapping_getitem (FormatType_name (classification r)) = Inr v"
  proof
    fix r assume "r \<in> set df"
    then have "classification r \<noteq> OTHER" using n by simp
    then show "\<exists>v. format_mapping_getitem (FormatType_name (classification r)) = Inr v"
      by (cases "classification r")
        (simp_all add: format_mapping_getitem_def format_mapping_def format_mapping_items_def)
  qed
  from replace_messages_total [OF n] obtain msgs where "replace_messages df = Inr msgs" ..
  then show "\<exists>msgs. replace_messages df = Inr msgs \<and> length msgs = length df"
    using replace_messages_Inr by blast
qed
text \<open>A frame with an \<open>OTHER\<close> row under the default bound, and a frame without one.\<close>

theorem rewrite_raises_on_OTHER_witness:
  "replace_reasoning_questions_format (\<lambda>sm um. Inr ''Q'')
     [\<lparr>turns = [''A''], ground_truth = ''1'', task = ''t'', turns_str = Some ''A'',
       data_point_id = None, updated_question = Some ''A'', classification = T1\<rparr>,
      \<lparr>turns = [''B''], ground_truth = ''2'', task = ''t'', turns_str = Some ''B'',
       data_point_id = None, updated_question = Some ''B'', classification = OTHER\<rparr>]
     None [0, 1] = Raised (KeyError ''OTHER'') \<and>
   (\<exists>msgs. replace_messages
       [\<lparr>turns = [''A''], ground_truth = ''1'', task = ''t'', turns_str = Some ''A'',
         data_point_id = None, updated_question = Some ''A'', classification = T1\<rparr>,
        \<lparr>turns = [''B''], ground_truth = ''2'', task = ''t'', turns_str = Some ''B'',
         data_point_id = None, updated_question = Some ''B'', classification = T5\<rparr>] = Inr msgs \<and>
      length msgs = 2)"
proof -
  let ?bad = "[\<lparr>turns = [''A''], ground_truth = ''1'', task = ''t'', turns_str = Some ''A'',
           data_point_id = None, updated_question = Some ''A'', classification = T1\<rparr>,
          \<lparr>turns = [''B''], ground_truth = ''2'', task = ''t'', turns_str = Some ''B'',
           data_point_id = None, updated_question = Some ''B'', classification = OTHER\<rparr>]"
  let ?good = "[\<lparr>turns = [''A''], ground_truth = ''1'', task = ''t'', turns_str = Some ''A'',
           data_point_id = None, updated_question = Some ''A'', classification = T1\<rparr>,
          \<lparr>turns = [''B''], ground_truth = ''2'', task = ''t'', turns_str = Some ''B'',
           data_point_id = None, updated_question = Some ''B'', classification = T5\<rparr>]"
  have k: "0 \<le> concurrency_of None" by (simp add: concurrency_of_def)
  have h1: "\<exists>r \<in> set ?bad. classification r = OTHER" by simp
  have h2: "\<forall>r \<in> set ?good. classification r \<noteq> OTHER" by simp
  have l: "length ?good = 2" by simp
  have c1: "replace_reasoning_questions_format (\<lambda>sm um. Inr ''Q'') ?bad None [0, 1]
            = Raised (KeyError ''OTHER'')"
    using rewrite_raises_on_OTHER [OF k, of ?bad "\<lambda>sm um. Inr ''Q''" "[0, 1]"] h1 by blast
  have c2: "\<exists>msgs. replace_messages ?good = Inr msgs \<and> length msgs = length ?good"
    using rewrite_raises_on_OTHER [OF k, of ?good "\<lambda>sm um. Inr ''Q''" "[]"] h2 by blast
  show ?thesis using c1 c2 unfolding l by blast
qed

subsection \<open>The classifier's labels\<close>

text \<open>
  Claim C5. When the classifier returns, it returns exactly one label per record, in
  record order; each label is a member of \<open>FormatType\<close>, namely the member whose value
  is the raw text the model gave for that record. Nothing else is ever returned as a
  classification.
\<close>

theorem closed_set_classification:
  "run_result (classify_reasoning_questions create df c schedule) = Some (Inr labels) \<Longrightarrow>
   length labels = length df \<and>
   (\<forall>i < length df.
      labels ! i \<in> set FormatType_members \<and>
      create system_prompt_classification_reasoning
        (''Question:\<newline>'' @ format_str (turns_str (df ! i)))
        = Inr (FormatType_value (labels ! i)))"
proof -
  assume a: "run_result (classify_reasoning_questions create df c schedule) = Some (Inr labels)"
  then have k: "\<not> concurrency_of c < 0" by (auto simp: classify_unfold split: if_splits)
  then have "gather_result (gather (map (classify_call create) df) (nat (concurrency_of c)) schedule)
             = Some (Inr labels)"
    using a by (simp add: classify_unfold)
  from gather_result_Inr [OF res_inv_gather this]
  have m: "map (classify_call create) df = map Inr labels" .
  then have len: "length labels = length df" by (metis length_map)
  have "classify_call create (df ! i) = Inr (labels ! i)" if "i < length df" for i
    using m that len by (metis nth_map)
  then show ?thesis using len classify_call_Inr by blast
qed

text \<open>Two records, one call at a time: the labels are \<open>T4\<close> and \<open>OTHER\<close>.\<close>

theorem closed_set_classification_witness:
  "run_result
     (classify_reasoning_questions
        (\<lambda>sm um. if um = ''Question:\<newline>A'' then Inr (FormatType_value T4)
                  else Inr (FormatType_value OTHER))
        [\<lparr>turns = [''A''], ground_truth = ''1'', task = ''t'', turns_str = Some ''A'',
          data_point_id = None, updated_question = Some ''A''\<rparr>,
         \<lparr>turns = [''B''], ground_truth = ''2'', task = ''t'', turns_str = Some ''B'',
          data_point_id = None, updated_question = Some ''B''\<rparr>]
        (Some 1) [0, 1]) = Some (Inr [T4, OTHER]) \<and>
   set [T4, OTHER] \<subseteq> set FormatType_members"
  (is "run_result ?r = _ \<and> _")
proof -
  have e: "run_result ?r = Some (Inr [T4, OTHER])" by code_simp
  from closed_set_classification [OF e]
  have a: "\<forall>i < 2. [T4, OTHER] ! i \<in> set FormatType_members" by simp
  have "T4 \<in> set FormatType_members"
    using a [rule_format, of 0] by simp
  moreover have "OTHER \<in> set FormatType_members"
    using a [rule_format, of 1] by simp
  ultimately show ?thesis using e by simp
qed

subsection \<open>A batch succeeds as a whole or fails as a whole\<close>

lemma gathering_all_or_nothing:
  assumes r: "r = Gathering msgs (gather (map f df) K sched)"
  shows "(run_result r = Some (Inr rs) \<longrightarrow> map f df = map Inr rs) \<and>
         (i < length df \<and> f (df ! i) = Inl e \<and> i \<in> run_done r \<longrightarrow>
            (\<exists>e'. run_result r = Some (Inl e') \<and> (\<exists>j < length df. f (df ! j) = Inl e')))"
proof (intro conjI impI)
  let ?s = "gather (map f df) K sched"
  have res: "res_inv (map f df) ?s" by (rule res_inv_gather)
  {
    assume "run_result r = Some (Inr rs)"
    then have "gather_result ?s = Some (Inr rs)" by (simp add: r)
    from gather_result_Inr [OF res this] show "map f df = map Inr rs" .
  }
  {
    assume a: "i < length df \<and> f (df ! i) = Inl e \<and> i \<in> run_done r"
    then have i: "i < length (map f df)" "is_done (tasks ?s ! i)" "map f df ! i = Inl e"
      by (simp_all add: r)
    from gather_result_failed [OF res i] obtain e' where e': "gather_result ?s = Some (Inl e')" ..
    from gather_result_Inl [OF res e'] obtain j where "j < length df" "f (df ! j) = Inl e'"
      by auto
    then show "\<exists>e'. run_result r = Some (Inl e') \<and> (\<exists>j < length df. f (df ! j) = Inl e')"
      using e' by (auto simp: r)
  }
qed

lemma raised_all_or_nothing:
  assumes r: "r = Raised x"
  shows "(run_result r = Some (Inr rs) \<longrightarrow> P) \<and> (A \<and> B \<and> i \<in> run_done r \<longrightarrow> Q)"
  by (simp add: r)

text \<open>
  Claim C2. For both stages: a list of results is returned only when the call of every
  record has succeeded (and then the list holds the results of those calls); and as
  soon as the call of some record has failed, the stage call has failed, with the error
  of a failed call of the batch propagated (the error of that record when it is the
  only one that fails), so that no list is returned.
\<close>

theorem batch_all_or_nothing:
  "(run_result (classify_reasoning_questions create df c schedule) = Some (Inr labels) \<longrightarrow>
      map (classify_call create) df = map Inr labels) \<and>
   (i < length df \<and> classify_call create (df ! i) = Inl e \<and>
    i \<in> run_done (classify_reasoning_questions create df c schedule) \<longrightarrow>
      (\<exists>e'. run_result (classify_reasoning_questions create df c schedule) = Some (Inl e') \<and>
            (\<exists>j < length df. classify_call create (df ! j) = Inl e'))) \<and>
   (run_result (replace_reasoning_questions_format create df' c schedule') = Some (Inr texts) \<longrightarrow>
      map (replace_call create) df' = map Inr texts) \<and>
   (i' < length df' \<and> replace_call create (df' ! i') = Inl e \<and>
    i' \<in> run_done (replace_reasoning_questions_format create df' c schedule') \<longrightarrow>
      (\<exists>e'. run_result (replace_reasoning_questions_format create df' c schedule') = Some (Inl e') \<and>
            (\<exists>j < length df'. replace_call create (df' ! j) = Inl e')))"
proof -
  have a: "(run_result (classify_reasoning_questions create df c schedule) = Some (Inr labels) \<longrightarrow>
      map (classify_call create) df = map Inr labels) \<and>
   (i < length df \<and> classify_call create (df ! i) = Inl e \<and>
    i \<in> run_done (classify_reasoning_questions create df c schedule) \<longrightarrow>
      (\<exists>e'. run_result (classify_reasoning_questions create df c schedule) = Some (Inl e') \<and>
            (\<exists>j < length df. classify_call create (df ! j) = Inl e')))"
  proof (cases "concurrency_of c < 0")
    case True
    show ?thesis by (rule raised_all_or_nothing) (simp add: classify_unfold True)
  next
    case False
    show ?thesis by (rule gathering_all_or_nothing) (simp add: classify_unfold False)
  qed
  have b: "(run_result (replace_reasoning_questions_format create df' c schedule') = Some (Inr texts) \<longrightarrow>
      map (replace_call create) df' = map Inr texts) \<and>
   (i' < length df' \<and> replace_call create (df' ! i') = Inl e \<and>
    i' \<in> run_done (replace_reasoning_questions_format create df' c schedule') \<longrightarrow>
      (\<exists>e'. run_result (replace_reasoning_questions_format create df' c schedule') = Some (Inl e') \<and>
            (\<exists>j < length df'. replace_call create (df' ! j) = Inl e')))"
  proof (cases "concurrency_of c < 0")
    case True
    show ?thesis by (rule raised_all_or_nothing) (simp add: replace_unfold True)
  next
    case False
    show ?thesis
    proof (cases "replace_messages df'")
      case (Inl x)
      show ?thesis by (rule raised_all_or_nothing) (simp add: replace_unfold False Inl)
    next
      case (Inr msgs)
      show ?thesis by (rule gathering_all_or_nothing) (simp add: replace_unfold False Inr)
    qed
  qed
  show ?thesis using a b by blast
qed


text \<open>
  Two records, one call at a time. With a client that always answers, both stages
  return their lists; with a client that times out on the second record, both stages
  fail with that error.
\<close>

theorem batch_all_or_nothing_witness:
  "map (classify_call (\<lambda>sm um. Inr (FormatType_value T4)))
     [\<lparr>turns = [''Apple?''], ground_truth = ''1'', task = ''t'', turns_str = Some ''Apple?'',
          data_point_id = None, updated_question = None\<rparr>,
         \<lparr>turns = [''Zebra?''], ground_truth = ''2'', task = ''t'', turns_str = Some ''Zebra?'',
          data_point_id = None, updated_question = None\<rparr>] = map Inr [T4, T4] \<and>
   run_result
     (classify_reasoning_questions
        (\<lambda>sm um. if sublist ''Zebra'' um then Inl (TransportError ''timeout'') else Inr (FormatType_value T4))
        [\<lparr>turns = [''Apple?''], ground_truth = ''1'', task = ''t'', turns_str = Some ''Apple?'',
          data_point_id = None, updated_question = None\<rparr>,
         \<lparr>turns = [''Zebra?''], ground_truth = ''2'', task = ''t'', turns_str = Some ''Zebra?'',
          data_point_id = None, updated_question = None\<rparr>]
        (Some 1) [0, 1]) = Some (Inl (TransportError ''timeout'')) \<and>
   map (replace_call (\<lambda>sm um. Inr (FormatType_value T4)))
     [\<lparr>turns = [''Apple?''], ground_truth = ''1'', task = ''t'', turns_str = Some ''Apple?'',
          data_point_id = None, updated_question = None, classification = T1\<rparr>,
         \<lparr>turns = [''Zebra?''], ground_truth = ''2'', task = ''t'', turns_str = Some ''Zebra?'',
          data_point_id = None, updated_question = None, classification = T4\<rparr>] = map Inr [FormatType_value T4, FormatType_value T4] \<and>
   run_result
     (replace_reasoning_questions_format
        (\<lambda>sm um. if sublist ''Zebra'' um then Inl (TransportError ''timeout'') else Inr (FormatType_value T4))
        [\<lparr>turns = [''Apple?''], ground_truth = ''1'', task = ''t'', turns_str = Some ''Apple?'',
          data_point_id = None, updated_question = None, classification = T1\<rparr>,
         \<lparr>turns = [''Zebra?''], ground_truth = ''2'', task = ''t'', turns_str = Some ''Zebra?'',
          data_point_id = None, updated_question = None, classification = T4\<rparr>]
        (Some 1) [0, 1]) = Some (Inl (TransportError ''timeout''))"
proof -
  let ?ok = "(\<lambda>sm um. Inr (FormatType_value T4)) :: client"
  let ?bad = "(\<lambda>sm um. if sublist ''Zebra'' um then Inl (TransportError ''timeout'') else Inr (FormatType_value T4)) :: client"
  let ?df = "[\<lparr>turns = [''Apple?''], ground_truth = ''1'', task = ''t'', turns_str = Some ''Apple?'',
          data_point_id = None, updated_question = None\<rparr>,
         \<lparr>turns = [''Zebra?''], ground_truth = ''2'', task = ''t'', turns_str = Some ''Zebra?'',
          data_point_id = None, updated_question = None\<rparr>]"
  let ?df' = "[\<lparr>turns = [''Apple?''], ground_truth = ''1'', task = ''t'', turns_str = Some ''Apple?'',
          data_point_id = None, updated_question = None, classification = T1\<rparr>,
         \<lparr>turns = [''Zebra?''], ground_truth = ''2'', task = ''t'', turns_str = Some ''Zebra?'',
          data_point_id = None, updated_question = None, classification = T4\<rparr>]"
  have ok: "run_result (classify_reasoning_questions ?ok ?df (Some 1) [0, 1]) = Some (Inr [T4, T4])"
    by code_simp
  have ok': "run_result (replace_reasoning_questions_format ?ok ?df' (Some 1) [0, 1])
             = Some (Inr [FormatType_value T4, FormatType_value T4])"
    by code_simp
  have bad: "(1::nat) < length ?df \<and> classify_call ?bad (?df ! 1) = Inl (TransportError ''timeout'')"
    by code_simp
  have bad': "(1::nat) < length ?df' \<and> replace_call ?bad (?df' ! 1) = Inl (TransportError ''timeout'')"
    by code_simp
  have d: "is_done (tasks (gather (map (classify_call ?bad) ?df) 1 [0, 1]) ! 1)"
    by code_simp
  have d': "is_done (tasks (gather (map (replace_call ?bad) ?df') 1 [0, 1]) ! 1)"
    by code_simp
  have m': "\<exists>msgs. replace_messages ?df' = Inr msgs"
    by (rule replace_messages_total) simp
  have dn: "1 \<in> run_done (classify_reasoning_questions ?bad ?df (Some 1) [0, 1])"
    using d by (simp add: classify_unfold concurrency_of_def)
  have dn': "1 \<in> run_done (replace_reasoning_questions_format ?bad ?df' (Some 1) [0, 1])"
    using d' m' by (auto simp: replace_unfold concurrency_of_def simp del: replace_messages.simps)
  note t_ok = batch_all_or_nothing [of ?ok ?df "Some 1" "[0, 1]" "[T4, T4]" 0 AssertionError
      ?df' "[0, 1]" "[FormatType_value T4, FormatType_value T4]" 0]
  note t_bad = batch_all_or_nothing [of ?bad ?df "Some 1" "[0, 1]" "[]" 1 "TransportError ''timeout''"
      ?df' "[0, 1]" "[]" 1]
  have a: "map (classify_call ?ok) ?df = map Inr [T4, T4]" using t_ok ok by blast
  have a': "map (replace_call ?ok) ?df' = map Inr [FormatType_value T4, FormatType_value T4]"
    using t_ok ok' by blast
  obtain e1 where e1: "run_result (classify_reasoning_questions ?bad ?df (Some 1) [0, 1]) = Some (Inl e1)"
    using t_bad bad dn by blast
  obtain e2 where e2: "run_result (replace_reasoning_questions_format ?bad ?df' (Some 1) [0, 1]) = Some (Inl e2)"
    using t_bad bad' dn' by blast
  have b: "run_result (classify_reasoning_questions ?bad ?df (Some 1) [0, 1])
           = Some (Inl (TransportError ''timeout''))"
    by code_simp
  have b': "run_result (replace_reasoning_questions_format ?bad ?df' (Some 1) [0, 1])
           = Some (Inl (TransportError ''timeout''))"
    by code_simp
  show ?thesis using a a' b b' e1 e2 by blast
qed

subsection \<open>Results follow the records, not the completion order\<close>

lemma gathering_reorder:
  assumes p: "set p \<subseteq> {..<length df}"
    and r: "r = Gathering msgs (gather (map f df) K s1)"
    and ok: "run_result r = Some (Inr rs)"
    and r': "r' = Gathering msgs' (gather (map f (map (nth df) p)) K' s2)"
    and d: "run_done r' = {..<length p}"
  shows "length rs = length df \<and> (\<forall>i < length df. f (df ! i) = Inr (rs ! i)) \<and>
         run_result r' = Some (Inr (map (nth rs) p))"
proof -
  have "gather_result (gather (map f df) K s1) = Some (Inr rs)" using ok by (simp add: r)
  from gather_result_Inr [OF res_inv_gather this]
  have m: "map f df = map Inr rs" .
  then have len: "length rs = length df" by (metis length_map)
  have nth: "f (df ! i) = Inr (rs ! i)" if "i < length df" for i
    using m that len by (metis nth_map)
  let ?calls = "map f (map (nth df) p)"
  let ?s = "gather ?calls K' s2"
  have c: "?calls = map Inr (map (nth rs) p)"
    using p nth by (auto simp: subset_iff)
  have "\<forall>i < length ?calls. is_done (tasks ?s ! i)"
    using d by (auto simp: r')
  from gather_result_all_done [OF res_inv_gather this c]
  have "run_result r' = Some (Inr (map (nth rs) p))" by (simp add: r')
  then show ?thesis using len nth by blast
qed

text \<open>
  Claim C4. For both stages and every deterministic client: when a run on a data frame
  returns a list, element \<open>i\<close> of the list is the result of the call of record \<open>i\<close>,
  whatever the order in which the calls completed; and a run on the frame reordered by
  a permutation \<open>p\<close> of its indices, once all of its calls have completed in any
  order, returns the same results reordered by \<open>p\<close>, so each record keeps its result.
\<close>

theorem order_independence:
  "(distinct p \<and> set p = {..<length df} \<and>
    run_result (classify_reasoning_questions create df c s1) = Some (Inr labels) \<and>
    run_done (classify_reasoning_questions create (map (nth df) p) c s2) = {..<length p} \<longrightarrow>
      length labels = length df \<and>
      (\<forall>i < length df. classify_call create (df ! i) = Inr (labels ! i)) \<and>
      run_result (classify_reasoning_questions create (map (nth df) p) c s2)
        = Some (Inr (map (nth labels) p))) \<and>
   (distinct p' \<and> set p' = {..<length df'} \<and>
    run_result (replace_reasoning_questions_format create df' c s1') = Some (Inr texts) \<and>
    run_done (replace_reasoning_questions_format create (map (nth df') p') c s2') = {..<length p'} \<longrightarrow>
      length texts = length df' \<and>
      (\<forall>i < length df'. replace_call create (df' ! i) = Inr (texts ! i)) \<and>
      run_result (replace_reasoning_questions_format create (map (nth df') p') c s2')
        = Some (Inr (map (nth texts) p')))"
proof (rule conjI; rule impI)
  assume a: "distinct p \<and> set p = {..<length df} \<and>
    run_result (classify_reasoning_questions create df c s1) = Some (Inr labels) \<and>
    run_done (classify_reasoning_questions create (map (nth df) p) c s2) = {..<length p}"
  then have k: "\<not> concurrency_of c < 0" by (auto simp: classify_unfold split: if_splits)
  have p: "set p \<subseteq> {..<length df}" using a by blast
  have r: "classify_reasoning_questions create df c s1 =
           Gathering (map classify_message df)
             (gather (map (classify_call create) df) (nat (concurrency_of c)) s1)"
    by (simp add: classify_unfold k)
  have r': "classify_reasoning_questions create (map (nth df) p) c s2 =
           Gathering (map classify_message (map (nth df) p))
             (gather (map (classify_call create) (map (nth df) p)) (nat (concurrency_of c)) s2)"
    by (simp only: classify_unfold k if_False)
  show "length labels = length df \<and>
      (\<forall>i < length df. classify_call create (df ! i) = Inr (labels ! i)) \<and>
      run_result (classify_reasoning_questions create (map (nth df) p) c s2)
        = Some (Inr (map (nth labels) p))"
    using a gathering_reorder [OF p r _ r'] by blast
next
  assume a: "distinct p' \<and> set p' = {..<length df'} \<and>
    run_result (replace_reasoning_questions_format create df' c s1') = Some (Inr texts) \<and>
    run_done (replace_reasoning_questions_format create (map (nth df') p') c s2') = {..<length p'}"
  then have k: "\<not> concurrency_of c < 0" by (auto simp: replace_unfold split: if_splits)
  have p: "set p' \<subseteq> {..<length df'}" using a by blast
  obtain msgs where msgs: "replace_messages df' = Inr msgs"
    using a k by (cases "replace_messages df'") (auto simp: replace_unfold)
  then have "\<forall>r \<in> set df'. classification r \<noteq> OTHER"
    using replace_messages_Inl [of df'] by (metis sum.distinct(1))
  moreover have "set (map (nth df') p') \<subseteq> set df'" using p by auto
  ultimately have "\<forall>r \<in> set (map (nth df') p'). classification r \<noteq> OTHER" by blast
  from replace_messages_total [OF this]
  obtain msgs' where msgs': "replace_messages (map (nth df') p') = Inr msgs'" ..
  show "length texts = length df' \<and>
      (\<forall>i < length df'. replace_call create (df' ! i) = Inr (texts ! i)) \<and>
      run_result (replace_reasoning_questions_format create (map (nth df') p') c s2')
        = Some (Inr (map (nth texts) p'))"
  proof -
    have r: "replace_reasoning_questions_format create df' c s1' =
             Gathering msgs (gather (map (replace_call create) df') (nat (concurrency_of c)) s1')"
      by (simp add: replace_unfold k msgs)
    have r': "replace_reasoning_questions_format create (map (nth df') p') c s2' =
             Gathering msgs'
               (gather (map (replace_call create) (map (nth df') p')) (nat (concurrency_of c)) s2')"
      by (simp only: replace_unfold k if_False msgs' sum.case)
    show ?thesis using a gathering_reorder [OF p r _ r'] by blast
  qed
qed


text \<open>
  Two records, swapped; the calls of the first run complete in the order \<open>1, 0\<close>, those
  of the second in the order \<open>0, 1\<close>.
\<close>

theorem order_independence_witness:
  "run_result
     (classify_reasoning_questions
        (\<lambda>sm um. if sublist ''Zebra'' um then Inr (FormatType_value T4) else Inr (FormatType_value T1))
        [\<lparr>turns = [''Apple?''], ground_truth = ''1'', task = ''t'', turns_str = Some ''Apple?'',
          data_point_id = None, updated_question = None\<rparr>,
         \<lparr>turns = [''Zebra?''], ground_truth = ''2'', task = ''t'', turns_str = Some ''Zebra?'',
          data_point_id = None, updated_question = None\<rparr>]
        (Some 2) [1, 0]) = Some (Inr [T1, T4]) \<and>
   run_result
     (classify_reasoning_questions
        (\<lambda>sm um. if sublist ''Zebra'' um then Inr (FormatType_value T4) else Inr (FormatType_value T1))
        (map (nth [\<lparr>turns = [''Apple?''], ground_truth = ''1'', task = ''t'', turns_str = Some ''Apple?'',
          data_point_id = None, updated_question = None\<rparr>,
         \<lparr>turns = [''Zebra?''], ground_truth = ''2'', task = ''t'', turns_str = Some ''Zebra?'',
          data_point_id = None, updated_question = None\<rparr>]) [1, 0])
        (Some 2) [0, 1]) = Some (Inr [T4, T1]) \<and>
   run_result
     (replace_reasoning_questions_format
        (\<lambda>sm um. if sublist ''Zebra'' um then Inr (FormatType_value T4) else Inr (FormatType_value T1))
        (map (nth [\<lparr>turns = [''Apple?''], ground_truth = ''1'', task = ''t'', turns_str = Some ''Apple?'',
          data_point_id = None, updated_question = None, classification = T1\<rparr>,
         \<lparr>turns = [''Zebra?''], ground_truth = ''2'', task = ''t'', turns_str = Some ''Zebra?'',
          data_point_id = None, updated_question = None, classification = T4\<rparr>]) [1, 0])
        (Some 2) [0, 1]) = Some (Inr [FormatType_value T4, FormatType_value T1])"
proof -
  let ?cl = "(\<lambda>sm um. if sublist ''Zebra'' um then Inr (FormatType_value T4) else Inr (FormatType_value T1)) :: client"
  let ?df = "[\<lparr>turns = [''Apple?''], ground_truth = ''1'', task = ''t'', turns_str = Some ''Apple?'',
          data_point_id = None, updated_question = None\<rparr>,
         \<lparr>turns = [''Zebra?''], ground_truth = ''2'', task = ''t'', turns_str = Some ''Zebra?'',
          data_point_id = None, updated_question = None\<rparr>]"
  let ?df' = "[\<lparr>turns = [''Apple?''], ground_truth = ''1'', task = ''t'', turns_str = Some ''Apple?'',
          data_point_id = None, updated_question = None, classification = T1\<rparr>,
         \<lparr>turns = [''Zebra?''], ground_truth = ''2'', task = ''t'', turns_str = Some ''Zebra?'',
          data_point_id = None, updated_question = None, classification = T4\<rparr>]"
  have p: "distinct [1, 0 :: nat] \<and> set [1, 0 :: nat] = {..<length ?df}"
    "distinct [1, 0 :: nat] \<and> set [1, 0 :: nat] = {..<length ?df'}"
    by auto
  have ok: "run_result (classify_reasoning_questions ?cl ?df (Some 2) [1, 0]) = Some (Inr [T1, T4])"
    by code_simp
  have ok': "run_result (replace_reasoning_questions_format ?cl ?df' (Some 2) [1, 0])
             = Some (Inr [FormatType_value T1, FormatType_value T4])"
    by code_simp
  define G where "G = gather (map (classify_call ?cl) (map (nth ?df) [1, 0])) 2 [0, 1]"
  define G' where "G' = gather (map (replace_call ?cl) (map (nth ?df') [1, 0])) 2 [0, 1]"
  have d: "is_done (tasks G ! 0)" "is_done (tasks G ! 1)"
    unfolding G_def by code_simp+
  have d': "is_done (tasks G' ! 0)" "is_done (tasks G' ! 1)"
    unfolding G'_def by code_simp+
  have len: "length (tasks G) = 2" "length (tasks G') = 2"
    unfolding G_def G'_def by simp_all
  have l2: "length [1, 0 :: nat] = 2" by simp
  have k2: "\<not> concurrency_of (Some 2) < 0" "nat (concurrency_of (Some 2)) = 2"
    by (simp_all add: concurrency_of_def)
  obtain msgs' where mm: "replace_messages (map (nth ?df') [1, 0]) = Inr msgs'"
    using replace_messages_total [of "map (nth ?df') [1, 0]"] by auto
  have r: "classify_reasoning_questions ?cl (map (nth ?df) [1, 0]) (Some 2) [0, 1] =
           Gathering (map classify_message (map (nth ?df) [1, 0])) G"
    unfolding G_def classify_unfold by (simp only: k2 if_False)
  have r': "replace_reasoning_questions_format ?cl (map (nth ?df') [1, 0]) (Some 2) [0, 1] =
            Gathering msgs' G'"
    unfolding G'_def replace_unfold by (simp only: k2 mm if_False sum.case)
  have two: "{i. i < (2::nat) \<and> P i} = {..<2}" if "P 0" "P 1" for P
    using that by (auto simp: less_2_cases_iff)
  have dn: "run_done (classify_reasoning_questions ?cl (map (nth ?df) [1, 0]) (Some 2) [0, 1])
            = {..<length [1, 0 :: nat]}"
    unfolding r l2 run_done.simps len by (rule two [OF d])
  have dn': "run_done (replace_reasoning_questions_format ?cl (map (nth ?df') [1, 0]) (Some 2) [0, 1])
            = {..<length [1, 0 :: nat]}"
    unfolding r' l2 run_done.simps len by (rule two [OF d'])
  note t = order_independence [of "[1, 0]" ?df ?cl "Some 2" "[1, 0]" "[T1, T4]" "[0, 1]"
      "[1, 0]" ?df' "[1, 0]" "[FormatType_value T1, FormatType_value T4]" "[0, 1]"]
  have a: "run_result (classify_reasoning_questions ?cl (map (nth ?df) [1, 0]) (Some 2) [0, 1])
           = Some (Inr (map (nth [T1, T4]) [1, 0]))"
    using t p(1) ok dn by blast
  have a': "run_result (replace_reasoning_questions_format ?cl (map (nth ?df') [1, 0]) (Some 2) [0, 1])
           = Some (Inr (map (nth [FormatType_value T1, FormatType_value T4]) [1, 0]))"
    using t p(2) ok' dn' by blast
  show ?thesis using ok a a' by simp
qed

end
